theory Spec2Isabelle
  imports Complex_Main "HOL-Library.List_Lexorder" "HOL-Library.Char_ord" "HOL-Library.Multiset"
begin

section \<open>Flood image analyzer: the batch analysis orchestrator\<close>

text \<open>
  A shallow embedding of \<^verbatim>\<open>scripts/flood_image_analyzer.py\<close> (class
  \<^verbatim>\<open>FloodImageAnalyzer\<close>): \<^verbatim>\<open>parse_json_response\<close>, \<^verbatim>\<open>analyze_image\<close>,
  \<^verbatim>\<open>get_image_files\<close> and \<^verbatim>\<open>analyze_batch\<close>.

  Conventions.
  \<^item> A Python \<^verbatim>\<open>str\<close> is a \<^typ>\<open>string\<close> holding its UTF-8 bytes: an ASCII character is
    one \<^typ>\<open>char\<close>, the en dash of the depth bands is three. Comparing two texts byte
    by byte orders them as Python orders them code point by code point, and the byte
    \<^verbatim>\<open>}\<close> occurs in the encoding of no other character. Offsets inside a text are byte
    offsets.
  \<^item> A Python value (what \<^verbatim>\<open>json.loads\<close> returns, what a result dictionary stores) is a
    \<^verbatim>\<open>json\<close> value; a \<^verbatim>\<open>dict\<close> is an association list with distinct keys in insertion
    order.
  \<^item> Everything the program reads from outside (directory listing, file contents, the
    replies of the hosted model, the clock) is a field of the record \<open>world\<close>; everything it
    does to the outside (requests, pauses, the report file) is an \<open>event\<close> of the returned
    trace.
  \<^item> An exception is a value: a function that can raise returns a sum, \<open>Inl\<close> the exception.
\<close>

subsection \<open>Paths (\<^verbatim>\<open>pathlib\<close>, POSIX flavour)\<close>

text \<open>\<^verbatim>\<open>str.rfind(c)\<close>: the index of the last occurrence, \<open>-1\<close> when there is none.\<close>

definition rfind :: "char \<Rightarrow> string \<Rightarrow> int" where
  "rfind c s =
     (if c \<in> set s then int (length s) - 1 - int (length (takeWhile (\<lambda>x. x \<noteq> c) (rev s)))
      else - 1)"

text \<open>\<^verbatim>\<open>Path.name\<close>: the final component.\<close>

definition path_name :: "string \<Rightarrow> string" where
  "path_name p = rev (takeWhile (\<lambda>c. c \<noteq> CHR ''/'') (rev p))"

text \<open>
  \<^verbatim>\<open>Path.suffix\<close> and \<^verbatim>\<open>Path.stem\<close> of a final component, as \<^verbatim>\<open>pathlib\<close> computes them:
  \<^verbatim>\<open>i = name.rfind('.')\<close>, and the name splits at \<open>i\<close> when \<^verbatim>\<open>0 < i < len(name) - 1\<close>.
\<close>

definition path_suffix :: "string \<Rightarrow> string" where
  "path_suffix name =
     (let i = rfind CHR ''.'' name
      in if 0 < i \<and> i < int (length name) - 1 then drop (nat i) name else [])"

definition path_stem :: "string \<Rightarrow> string" where
  "path_stem name =
     (let i = rfind CHR ''.'' name
      in if 0 < i \<and> i < int (length name) - 1 then take (nat i) name else name)"

text \<open>\<^verbatim>\<open>str.lower()\<close>, on the ASCII letters; other bytes are kept.\<close>

definition lower_char :: "char \<Rightarrow> char" where
  "lower_char c =
     (let n = (of_char c :: nat) in if 65 \<le> n \<and> n \<le> 90 then char_of (n + 32) else c)"

definition lower :: "string \<Rightarrow> string" where
  "lower s = map lower_char s"

definition SUPPORTED_FORMATS :: "string list" where
  "SUPPORTED_FORMATS = [''.jpg'', ''.jpeg'', ''.png'', ''.gif'', ''.webp'']"

subsection \<open>\<^verbatim>\<open>int(text)\<close>\<close>

text \<open>
  The built-in \<^verbatim>\<open>int\<close> applied to a text, base ten: surrounding white space is dropped,
  one sign is allowed, and the digits may be separated by single underscores. \<open>None\<close> is
  \<^verbatim>\<open>ValueError\<close>. The model reads ASCII digits and ASCII white space; a stem is a file
  name, far shorter than the interpreter's limit on the number of digits.
\<close>

definition is_digit :: "char \<Rightarrow> bool" where
  "is_digit c = (let n = (of_char c :: nat) in 48 \<le> n \<and> n \<le> 57)"

definition digit_val :: "char \<Rightarrow> int" where
  "digit_val c = int (of_char c) - 48"

definition is_space :: "char \<Rightarrow> bool" where
  "is_space c = (let n = (of_char c :: nat) in (9 \<le> n \<and> n \<le> 13) \<or> n = 32)"

fun dec_digits :: "int \<Rightarrow> string \<Rightarrow> int option" where
  "dec_digits acc [] = Some acc"
| "dec_digits acc [c] = (if is_digit c then Some (acc * 10 + digit_val c) else None)"
| "dec_digits acc (c # d # ds) =
     (if is_digit c then dec_digits (acc * 10 + digit_val c) (d # ds)
      else if c = CHR ''_'' \<and> is_digit d then dec_digits (acc * 10 + digit_val d) ds
      else None)"

definition py_digits :: "string \<Rightarrow> int option" where
  "py_digits s =
     (case s of [] \<Rightarrow> None
      | c # cs \<Rightarrow> if is_digit c then dec_digits (digit_val c) cs else None)"

definition strip :: "string \<Rightarrow> string" where
  "strip s = rev (dropWhile is_space (rev (dropWhile is_space s)))"

definition py_int :: "string \<Rightarrow> int option" where
  "py_int s =
     (case strip s of [] \<Rightarrow> None
      | c # cs \<Rightarrow>
          if c = CHR ''-'' then map_option uminus (py_digits cs)
          else if c = CHR ''+'' then py_digits cs
          else py_digits (c # cs))"

subsection \<open>The outside world\<close>

text \<open>
  One reply of \<^verbatim>\<open>client.chat.completions.create\<close> followed by
  \<^verbatim>\<open>response.choices[0].message.content\<close>: the call or the access raises (with the text of
  the exception), or there is a content, which may be \<^verbatim>\<open>None\<close>.
\<close>

datatype api_result = ApiRaises string | ApiContent "string option"

record world =
  path_exists :: "string \<Rightarrow> bool"
  iterdir :: "string \<Rightarrow> string + string list"
  is_file :: "string \<Rightarrow> bool"
  read_bytes :: "string \<Rightarrow> string + string"
  fewshot_error :: "string \<Rightarrow> string option"
  chat_completions_create :: "string \<Rightarrow> nat \<Rightarrow> string \<Rightarrow> api_result"
  datetime_now :: "string \<Rightarrow> string"
  summary_now :: string
  open_write :: "string \<Rightarrow> string option"
  percent_1f :: "nat \<Rightarrow> nat \<Rightarrow> string"

text \<open>
  \<^item> \<open>path_exists\<close>, \<open>is_file\<close>: \<^verbatim>\<open>Path.exists()\<close>, \<^verbatim>\<open>Path.is_file()\<close>.
  \<^item> \<open>iterdir d\<close>: the paths \<^verbatim>\<open>d.iterdir()\<close> yields, in the order of the file system, or the
    text of the \<^verbatim>\<open>OSError\<close> raised while the directory is listed.
  \<^item> \<open>read_bytes p\<close>: the bytes of the file, or the text of the error of \<^verbatim>\<open>open(p, "rb")\<close>.
  \<^item> \<open>fewshot_error p\<close>: the text of the exception raised, if any, while the few-shot
    examples are loaded and the messages are built for image \<open>p\<close> (a missing or unreadable
    example is skipped, but the test \<^verbatim>\<open>Path.exists()\<close> itself can raise an \<^verbatim>\<open>OSError\<close>);
    \<open>None\<close> when the messages are built.
  \<^item> \<open>chat_completions_create p attempt model\<close>: the reply to the request sent for image
    \<open>p\<close> in round \<open>attempt\<close> (counted from 0) to \<open>model\<close>. Every such request is sent at
    most once in a run, so a function of the three covers every sequence of replies.
  \<^item> \<open>datetime_now p\<close>: \<^verbatim>\<open>datetime.now().isoformat()\<close> when the record of image \<open>p\<close> is
    built; \<open>summary_now\<close>: the same when the summary is built.
  \<^item> \<open>open_write f\<close>: the text of the error of \<^verbatim>\<open>open(f, 'w')\<close>, \<open>None\<close> when it succeeds.
  \<^item> \<open>percent_1f s n\<close>: the text \<^verbatim>\<open>f"{(s / n * 100):.1f}%"\<close>, floating-point arithmetic that
    is left to the host.
\<close>

subsection \<open>\<^verbatim>\<open>get_image_files\<close>\<close>

text \<open>
  The key of \<^verbatim>\<open>sort_key\<close>: the tuple \<^verbatim>\<open>(0, int(path.stem))\<close> or \<^verbatim>\<open>(1, path.name)\<close>. Tuples
  compare by their first component, then by the second.
\<close>

datatype order_key = NumKey int | NameKey string

instantiation order_key :: linorder
begin

definition less_eq_order_key :: "order_key \<Rightarrow> order_key \<Rightarrow> bool" where
  "less_eq_order_key a b =
     (case a of
        NumKey m \<Rightarrow> (case b of NumKey n \<Rightarrow> m \<le> n | NameKey t \<Rightarrow> True)
      | NameKey s \<Rightarrow> (case b of NumKey n \<Rightarrow> False | NameKey t \<Rightarrow> s \<le> t))"

definition less_order_key :: "order_key \<Rightarrow> order_key \<Rightarrow> bool" where
  "less_order_key a b = (a \<le> b \<and> \<not> b \<le> (a :: order_key))"

instance
proof
  fix x y z :: order_key
  show "(x < y) = (x \<le> y \<and> \<not> y \<le> x)"
    by (simp add: less_order_key_def)
  show "x \<le> x"
    by (simp add: less_eq_order_key_def split: order_key.splits)
  show "x \<le> y \<Longrightarrow> y \<le> z \<Longrightarrow> x \<le> z"
    by (auto simp: less_eq_order_key_def split: order_key.splits)
  show "x \<le> y \<Longrightarrow> y \<le> x \<Longrightarrow> x = y"
    by (auto simp: less_eq_order_key_def split: order_key.splits)
  show "x \<le> y \<or> y \<le> x"
    by (auto simp: less_eq_order_key_def split: order_key.splits)
qed

end

definition stem_int :: "string \<Rightarrow> int option" where
  "stem_int p = py_int (path_stem (path_name p))"

definition sort_key_path :: "string \<Rightarrow> order_key" where
  "sort_key_path p =
     (case stem_int p of Some n \<Rightarrow> NumKey n | None \<Rightarrow> NameKey (path_name p))"

definition is_image :: "world \<Rightarrow> string \<Rightarrow> bool" where
  "is_image w p = (is_file w p \<and> lower (path_suffix (path_name p)) \<in> set SUPPORTED_FORMATS)"

text \<open>\<^verbatim>\<open>sorted(image_files, key=sort_key)\<close> is a stable sort, as \<^const>\<open>sort_key\<close> is.\<close>

definition get_image_files :: "world \<Rightarrow> string \<Rightarrow> string + string list" where
  "get_image_files w directory =
     (case iterdir w directory of
        Inl e \<Rightarrow> Inl e
      | Inr entries \<Rightarrow> Inr (sort_key sort_key_path (filter (is_image w) entries)))"

subsection \<open>Python values and \<^verbatim>\<open>json.loads\<close>\<close>

text \<open>
  A decoded JSON value. An integer literal is a Python \<^verbatim>\<open>int\<close>; a literal with a fraction
  or an exponent, and the constants \<^verbatim>\<open>NaN\<close>, \<^verbatim>\<open>Infinity\<close>, \<^verbatim>\<open>-Infinity\<close>, are a
  \<^verbatim>\<open>float\<close>, kept as the literal that denotes it. \<open>JNull\<close> is \<^verbatim>\<open>None\<close>.
\<close>

datatype json =
    JNull
  | JBool bool
  | JInt int
  | JFloat string
  | JStr string
  | JArr "json list"
  | JObj "(string \<times> json) list"

text \<open>\<^verbatim>\<open>d[k] = v\<close> on a dictionary: a key that is present keeps its place.\<close>

fun dict_set :: "(string \<times> json) list \<Rightarrow> string \<Rightarrow> json \<Rightarrow> (string \<times> json) list" where
  "dict_set [] k v = [(k, v)]"
| "dict_set ((k', v') # d) k v = (if k' = k then (k, v) # d else (k', v') # dict_set d k v)"

text \<open>\<^verbatim>\<open>{**d, **e}\<close>: the items of \<open>e\<close> are stored into \<open>d\<close> one by one.\<close>

fun dict_update :: "(string \<times> json) list \<Rightarrow> (string \<times> json) list \<Rightarrow> (string \<times> json) list" where
  "dict_update d [] = d"
| "dict_update d ((k, v) # e) = dict_update (dict_set d k v) e"

text \<open>\<^verbatim>\<open>d.get(k)\<close>.\<close>

definition dict_get :: "(string \<times> json) list \<Rightarrow> string \<Rightarrow> json option" where
  "dict_get d k = map_of d k"

text \<open>
  \<^verbatim>\<open>json.JSONDecodeError(msg, doc, pos)\<close>: the message and the offset in the document.
\<close>

datatype json_msg =
    ExpectingValue
  | ExpectingPropertyName
  | ExpectingColon
  | ExpectingComma
  | ExtraData
  | UnterminatedString
  | InvalidControlCharacter
  | InvalidEscape
  | InvalidUnicodeEscape
  | UnexpectedBOM

datatype json_error = JSONDecodeError json_msg nat

text \<open>
  The decoder follows the scanner of CPython 3.11 (\<^verbatim>\<open>json.decoder\<close>, \<^verbatim>\<open>json.scanner\<close> and
  their C accelerator): which texts decode, to which value, and where the first error is
  reported. It is written as a tokenizer followed by a stack machine: the scanner reads
  white space between any two tokens and nowhere else, and it reports an error at the first
  token that does not fit, which is what the machine does. The limits the interpreter puts
  on the depth of nesting and on the number of digits of an integer are left out. The
  general properties below use one fact about the decoder, that the keys of a decoded
  object are distinct; the concrete inputs are decoded by evaluation.
\<close>

definition is_ws :: "char \<Rightarrow> bool" where
  "is_ws c = (c = CHR '' '' \<or> c = CHR 0x09 \<or> c = CHR 0x0A \<or> c = CHR 0x0D)"

definition hex_val :: "char \<Rightarrow> nat option" where
  "hex_val c =
     (let n = (of_char c :: nat)
      in if 48 \<le> n \<and> n \<le> 57 then Some (n - 48)
         else if 65 \<le> n \<and> n \<le> 70 then Some (n - 55)
         else if 97 \<le> n \<and> n \<le> 102 then Some (n - 87)
         else None)"

fun hex4 :: "string \<Rightarrow> nat option" where
  "hex4 [a, b, c, d] =
     (case (hex_val a, hex_val b, hex_val c, hex_val d) of
        (Some x, Some y, Some z, Some u) \<Rightarrow> Some (((x * 16 + y) * 16 + z) * 16 + u)
      | _ \<Rightarrow> None)"
| "hex4 _ = None"

text \<open>
  The UTF-8 bytes of a code point. A lone surrogate, which a Python text can hold, takes
  the three bytes the same scheme gives it.
\<close>

definition utf8 :: "nat \<Rightarrow> string" where
  "utf8 cp =
     (if cp < 0x80 then [char_of cp]
      else if cp < 0x800 then [char_of (0xC0 + cp div 64), char_of (0x80 + cp mod 64)]
      else if cp < 0x10000 then
        [char_of (0xE0 + cp div 4096), char_of (0x80 + cp div 64 mod 64),
         char_of (0x80 + cp mod 64)]
      else
        [char_of (0xF0 + cp div 262144), char_of (0x80 + cp div 4096 mod 64),
         char_of (0x80 + cp div 64 mod 64), char_of (0x80 + cp mod 64)])"

definition unescape :: "char \<Rightarrow> char option" where
  "unescape e =
     (if e = CHR 0x22 then Some (CHR 0x22)
      else if e = CHR 0x5C then Some (CHR 0x5C)
      else if e = CHR ''/'' then Some (CHR ''/'')
      else if e = CHR ''b'' then Some (CHR 0x08)
      else if e = CHR ''f'' then Some (CHR 0x0C)
      else if e = CHR ''n'' then Some (CHR 0x0A)
      else if e = CHR ''r'' then Some (CHR 0x0D)
      else if e = CHR ''t'' then Some (CHR 0x09)
      else None)"

text \<open>
  \<^verbatim>\<open>\uXXXX\<close>, with \<open>s\<close> the text after the \<^verbatim>\<open>u\<close> and \<open>pos\<close> the offset of the \<^verbatim>\<open>u\<close>: four
  hexadecimal digits followed by at least one more character; a high surrogate followed by
  the escape of a low one (and at least one more character) is joined with it. Returns the
  code point and the text left.
\<close>

definition scan_unicode :: "nat \<Rightarrow> string \<Rightarrow> json_error + nat \<times> string" where
  "scan_unicode pos s =
     (if length s < 5 then Inl (JSONDecodeError InvalidUnicodeEscape pos)
      else case hex4 (take 4 s) of
        None \<Rightarrow> Inl (JSONDecodeError InvalidUnicodeEscape pos)
      | Some c \<Rightarrow>
          let r = drop 4 s
          in if 0xD800 \<le> c \<and> c \<le> 0xDBFF \<and> 6 < length r
                \<and> take 2 r = [CHR 0x5C, CHR ''u''] then
               (case hex4 (take 4 (drop 2 r)) of
                  None \<Rightarrow> Inl (JSONDecodeError InvalidUnicodeEscape (pos + 6))
                | Some c2 \<Rightarrow>
                    if 0xDC00 \<le> c2 \<and> c2 \<le> 0xDFFF
                    then Inr (0x10000 + ((c - 0xD800) * 1024 + (c2 - 0xDC00)), drop 6 r)
                    else Inr (c, r))
             else Inr (c, r))"

text \<open>
  \<^verbatim>\<open>scanstring\<close> (strict): \<open>n\<close> is the length of the document, \<open>start\<close> the offset of the
  opening quote, \<open>acc\<close> the text decoded so far; the last argument starts after the opening
  quote. Returns the decoded text and the rest of the document.
\<close>

function scanstring :: "nat \<Rightarrow> nat \<Rightarrow> string \<Rightarrow> string \<Rightarrow> json_error + string \<times> string" where
  "scanstring n start acc [] = Inl (JSONDecodeError UnterminatedString start)"
| "scanstring n start acc (c # cs) =
     (if c = CHR 0x22 then Inr (acc, cs)
      else if c = CHR 0x5C then
        (case cs of
           [] \<Rightarrow> Inl (JSONDecodeError UnterminatedString start)
         | e # es \<Rightarrow>
             if e = CHR ''u'' then
               (case scan_unicode (n - length (e # es)) es of
                  Inl err \<Rightarrow> Inl err
                | Inr (cp, r) \<Rightarrow> scanstring n start (acc @ utf8 cp) r)
             else
               (case unescape e of
                  None \<Rightarrow> Inl (JSONDecodeError InvalidEscape (n - length (c # cs)))
                | Some x \<Rightarrow> scanstring n start (acc @ [x]) es))
      else if (of_char c :: nat) \<le> 0x1F then
        Inl (JSONDecodeError InvalidControlCharacter (n - length (c # cs)))
      else scanstring n start (acc @ [c]) cs)"
  by pat_completeness auto

lemma scan_unicode_length: "scan_unicode pos s = Inr (cp, r) \<Longrightarrow> length r < length s"
  by (auto simp: scan_unicode_def Let_def split: if_splits option.splits)

termination scanstring
proof (relation "measure (\<lambda>(n, b, acc, s). length s)", goal_cases)
  case 1
  show ?case by simp
next
  case (2 n bg acc c cs e es b cp r)
  then have "scan_unicode (n - length (e # es)) es = Inr (cp, r)"
    by simp
  then have "length r < length es"
    by (rule scan_unicode_length)
  with 2 show ?case by simp
next
  case 3
  then show ?case by simp
next
  case 4
  then show ?case by simp
qed

lemma scanstring_length: "scanstring n b acc s = Inr (t, r) \<Longrightarrow> length r < length s"
proof (induction n b acc s rule: scanstring.induct)
  case (1 n b acc)
  then show ?case by simp
next
  case (2 n b acc c cs)
  consider (quote) "c = CHR 0x22"
    | (esc) "c \<noteq> CHR 0x22" "c = CHR 0x5C"
    | (plain) "c \<noteq> CHR 0x22" "c \<noteq> CHR 0x5C"
    by blast
  then show ?case
  proof cases
    case quote
    with "2.prems" show ?thesis by simp
  next
    case esc
    show ?thesis
    proof (cases cs)
      case Nil
      with esc "2.prems" show ?thesis by simp
    next
      case (Cons e es)
      show ?thesis
      proof (cases "e = CHR ''u''")
        case True
        with esc Cons "2.prems" obtain cp r' where
          u: "scan_unicode (n - length (e # es)) es = Inr (cp, r')"
          and rest: "scanstring n b (acc @ utf8 cp) r' = Inr (t, r)"
          by (auto split: sum.splits)
        from "2.IH"(1) [OF esc Cons True u refl rest] scan_unicode_length [OF u] Cons
        show ?thesis by simp
      next
        case False
        with esc Cons "2.prems" obtain x where
          x: "unescape e = Some x" and rest: "scanstring n b (acc @ [x]) es = Inr (t, r)"
          by (auto split: option.splits)
        from "2.IH"(2) [OF esc Cons False x rest] Cons show ?thesis by simp
      qed
    qed
  next
    case plain
    with "2.prems" have ctl: "\<not> (of_char c :: nat) \<le> 0x1F"
      and rest: "scanstring n b (acc @ [c]) cs = Inr (t, r)"
      by (auto split: if_splits)
    from "2.IH"(3) [OF plain ctl rest] show ?thesis by simp
  qed
qed

text \<open>
  A number: \<^verbatim>\<open>-?(0|[1-9][0-9]*)(\.[0-9]+)?([eE][-+]?[0-9]+)?\<close>, the longest prefix that
  matches. Returns the value and the rest.
\<close>

definition digits_val :: "string \<Rightarrow> int" where
  "digits_val ds = foldl (\<lambda>a c. a * 10 + digit_val c) 0 ds"

definition scan_sign :: "string \<Rightarrow> string \<times> string" where
  "scan_sign s =
     (case s of
        [] \<Rightarrow> ([], s)
      | c # cs \<Rightarrow> if c = CHR ''-'' then ([c], cs) else ([], s))"

definition scan_int_part :: "string \<Rightarrow> (string \<times> string) option" where
  "scan_int_part s =
     (case s of
        [] \<Rightarrow> None
      | c # cs \<Rightarrow>
          if c = CHR ''0'' then Some ([c], cs)
          else if is_digit c then Some (takeWhile is_digit s, dropWhile is_digit s)
          else None)"

definition scan_frac :: "string \<Rightarrow> string \<times> string" where
  "scan_frac s =
     (case s of
        c # d # ds \<Rightarrow>
          if c = CHR ''.'' \<and> is_digit d
          then (c # takeWhile is_digit (d # ds), dropWhile is_digit (d # ds))
          else ([], s)
      | _ \<Rightarrow> ([], s))"

definition scan_exp_sign :: "string \<Rightarrow> string \<times> string" where
  "scan_exp_sign s =
     (case s of
        [] \<Rightarrow> ([], s)
      | d # ds \<Rightarrow> if d = CHR ''+'' \<or> d = CHR ''-'' then ([d], ds) else ([], s))"

definition scan_exp :: "string \<Rightarrow> string \<times> string" where
  "scan_exp s =
     (case s of
        [] \<Rightarrow> ([], s)
      | c # cs \<Rightarrow>
          if c = CHR ''e'' \<or> c = CHR ''E'' then
            (case scan_exp_sign cs of
               (sg, r) \<Rightarrow>
                 if takeWhile is_digit r = [] then ([], s)
                 else (c # sg @ takeWhile is_digit r, dropWhile is_digit r))
          else ([], s))"

definition scan_number :: "string \<Rightarrow> (json \<times> string) option" where
  "scan_number s =
     (case scan_sign s of
        (sg, s1) \<Rightarrow>
          (case scan_int_part s1 of
             None \<Rightarrow> None
           | Some (ip, s2) \<Rightarrow>
               (case scan_frac s2 of
                  (fp, s3) \<Rightarrow>
                    (case scan_exp s3 of
                       (ep, s4) \<Rightarrow>
                         if fp = [] \<and> ep = []
                         then Some (JInt (if sg = [] then digits_val ip else - digits_val ip), s4)
                         else Some (JFloat (sg @ ip @ fp @ ep), s4)))))"

text \<open>\<^verbatim>\<open>s.startswith(p)\<close>.\<close>

fun starts_with :: "string \<Rightarrow> string \<Rightarrow> bool" where
  "starts_with [] s = True"
| "starts_with (p # ps) [] = False"
| "starts_with (p # ps) (c # cs) = (p = c \<and> starts_with ps cs)"

text \<open>
  A value that is neither a text, an object nor an array: the literals, then a number,
  then the constants.
\<close>

definition scan_scalar :: "string \<Rightarrow> (json \<times> string) option" where
  "scan_scalar s =
     (if starts_with ''null'' s then Some (JNull, drop 4 s)
      else if starts_with ''true'' s then Some (JBool True, drop 4 s)
      else if starts_with ''false'' s then Some (JBool False, drop 5 s)
      else case scan_number s of
        Some r \<Rightarrow> Some r
      | None \<Rightarrow>
          if starts_with ''NaN'' s then Some (JFloat ''NaN'', drop 3 s)
          else if starts_with ''Infinity'' s then Some (JFloat ''Infinity'', drop 8 s)
          else if starts_with ''-Infinity'' s then Some (JFloat ''-Infinity'', drop 9 s)
          else None)"

lemma starts_with_length: "starts_with p s \<Longrightarrow> length p \<le> length s"
  by (induction p s rule: starts_with.induct) auto

lemma scan_sign_length: "scan_sign s = (sg, r) \<Longrightarrow> length r \<le> length s"
  by (auto simp: scan_sign_def split: list.splits if_splits)

lemma scan_int_part_length: "scan_int_part s = Some (ip, r) \<Longrightarrow> length r < length s"
  by (cases s) (auto simp: scan_int_part_def less_Suc_eq_le length_dropWhile_le split: if_splits)

lemma scan_frac_length: "scan_frac s = (fp, r) \<Longrightarrow> length r \<le> length s"
  by (auto simp: scan_frac_def less_Suc_eq_le length_dropWhile_le le_SucI split: list.splits if_splits)

lemma scan_exp_sign_length: "scan_exp_sign s = (sg, r) \<Longrightarrow> length r \<le> length s"
  by (auto simp: scan_exp_sign_def split: list.splits if_splits)

lemma scan_exp_length: "scan_exp s = (ep, r) \<Longrightarrow> length r \<le> length s"
proof (cases s)
  case Nil
  assume "scan_exp s = (ep, r)"
  with Nil show ?thesis by (simp add: scan_exp_def)
next
  case (Cons c cs)
  assume a: "scan_exp s = (ep, r)"
  obtain sg r' where sgr: "scan_exp_sign cs = (sg, r')"
    by (cases "scan_exp_sign cs") auto
  have "length (dropWhile is_digit r') \<le> length cs"
    using scan_exp_sign_length [OF sgr] length_dropWhile_le [of is_digit r'] by simp
  with a Cons sgr show ?thesis
    by (auto simp: scan_exp_def split: if_splits)
qed

lemma scan_number_length: "scan_number s = Some (v, r) \<Longrightarrow> length r < length s"
proof -
  assume a: "scan_number s = Some (v, r)"
  obtain sg s1 where s1: "scan_sign s = (sg, s1)"
    by (cases "scan_sign s") auto
  from a s1 obtain ip s2 where ip: "scan_int_part s1 = Some (ip, s2)"
    by (auto simp: scan_number_def split: option.splits)
  obtain fp s3 where fp: "scan_frac s2 = (fp, s3)"
    by (cases "scan_frac s2") auto
  obtain ep s4 where ep: "scan_exp s3 = (ep, s4)"
    by (cases "scan_exp s3") auto
  from a s1 ip fp ep have "r = s4"
    by (auto simp: scan_number_def split: if_splits)
  with scan_sign_length [OF s1] scan_int_part_length [OF ip] scan_frac_length [OF fp]
    scan_exp_length [OF ep]
  show ?thesis by simp
qed

lemma scan_scalar_length: "scan_scalar s = Some (v, r) \<Longrightarrow> length r < length s"
  by (auto simp: scan_scalar_def split: if_splits option.splits
      dest!: starts_with_length scan_number_length)

text \<open>
  The tokens of a document of length \<open>n\<close>, each with its offset. The list ends with the
  end of the document, with a text that does not scan, or with a character that starts
  no token.
\<close>

datatype token =
    TLBrace | TRBrace | TLBrack | TRBrack | TColon | TComma
  | TScalar json
  | TStrErr json_error
  | TBad
  | TEOF

function tokens :: "nat \<Rightarrow> string \<Rightarrow> (nat \<times> token) list" where
  "tokens n [] = [(n, TEOF)]"
| "tokens n (c # cs) =
     (if is_ws c then tokens n cs
      else if c = CHR ''{'' then (n - length (c # cs), TLBrace) # tokens n cs
      else if c = CHR ''}'' then (n - length (c # cs), TRBrace) # tokens n cs
      else if c = CHR ''['' then (n - length (c # cs), TLBrack) # tokens n cs
      else if c = CHR '']'' then (n - length (c # cs), TRBrack) # tokens n cs
      else if c = CHR '':'' then (n - length (c # cs), TColon) # tokens n cs
      else if c = CHR '','' then (n - length (c # cs), TComma) # tokens n cs
      else if c = CHR 0x22 then
        (case scanstring n (n - length (c # cs)) [] cs of
           Inl err \<Rightarrow> [(n - length (c # cs), TStrErr err)]
         | Inr (t, r) \<Rightarrow> (n - length (c # cs), TScalar (JStr t)) # tokens n r)
      else
        (case scan_scalar (c # cs) of
           None \<Rightarrow> [(n - length (c # cs), TBad)]
         | Some (v, r) \<Rightarrow> (n - length (c # cs), TScalar v) # tokens n r))"
  by pat_completeness auto

termination tokens
proof (relation "measure (\<lambda>(n, s). length s)", goal_cases)
  case (9 n c cs x t r)
  then have "scanstring n (n - length (c # cs)) [] cs = Inr (t, r)"
    by simp
  then have "length r < length cs"
    by (rule scanstring_length)
  then show ?case by simp
next
  case (10 n c cs x v r)
  then have "scan_scalar (c # cs) = Some (v, r)"
    by simp
  then have "length r < length (c # cs)"
    by (rule scan_scalar_length)
  then show ?case by simp
qed simp_all

text \<open>
  The stack machine. A frame is an array or an object under construction, an object with
  the key whose value is being read.
\<close>

datatype frame = InArr "json list" | InObj "(string \<times> json) list" string

datatype pstate =
    SValue
  | SArrFirst
  | SObjFirst
  | SObjKey "(string \<times> json) list"
  | SColon "(string \<times> json) list" string
  | SAfter json

fun parse :: "pstate \<Rightarrow> frame list \<Rightarrow> (nat \<times> token) list \<Rightarrow> json_error + json" where
  "parse st stk [] = Inl (JSONDecodeError ExpectingValue 0)"
| "parse SValue stk ((pos, t) # ts) =
     (case t of
        TScalar v \<Rightarrow> parse (SAfter v) stk ts
      | TLBrace \<Rightarrow> parse SObjFirst stk ts
      | TLBrack \<Rightarrow> parse SArrFirst stk ts
      | TStrErr err \<Rightarrow> Inl err
      | _ \<Rightarrow> Inl (JSONDecodeError ExpectingValue pos))"
| "parse SArrFirst stk ((pos, t) # ts) =
     (case t of
        TRBrack \<Rightarrow> parse (SAfter (JArr [])) stk ts
      | TScalar v \<Rightarrow> parse (SAfter v) (InArr [] # stk) ts
      | TLBrace \<Rightarrow> parse SObjFirst (InArr [] # stk) ts
      | TLBrack \<Rightarrow> parse SArrFirst (InArr [] # stk) ts
      | TStrErr err \<Rightarrow> Inl err
      | _ \<Rightarrow> Inl (JSONDecodeError ExpectingValue pos))"
| "parse SObjFirst stk ((pos, t) # ts) =
     (case t of
        TRBrace \<Rightarrow> parse (SAfter (JObj [])) stk ts
      | TScalar (JStr k) \<Rightarrow> parse (SColon [] k) stk ts
      | TStrErr err \<Rightarrow> Inl err
      | _ \<Rightarrow> Inl (JSONDecodeError ExpectingPropertyName pos))"
| "parse (SObjKey d) stk ((pos, t) # ts) =
     (case t of
        TScalar (JStr k) \<Rightarrow> parse (SColon d k) stk ts
      | TStrErr err \<Rightarrow> Inl err
      | _ \<Rightarrow> Inl (JSONDecodeError ExpectingPropertyName pos))"
| "parse (SColon d k) stk ((pos, t) # ts) =
     (case t of
        TColon \<Rightarrow> parse SValue (InObj d k # stk) ts
      | _ \<Rightarrow> Inl (JSONDecodeError ExpectingColon pos))"
| "parse (SAfter v) [] ((pos, t) # ts) =
     (case t of
        TEOF \<Rightarrow> Inr v
      | _ \<Rightarrow> Inl (JSONDecodeError ExtraData pos))"
| "parse (SAfter v) (InArr vs # stk) ((pos, t) # ts) =
     (case t of
        TComma \<Rightarrow> parse SValue (InArr (vs @ [v]) # stk) ts
      | TRBrack \<Rightarrow> parse (SAfter (JArr (vs @ [v]))) stk ts
      | _ \<Rightarrow> Inl (JSONDecodeError ExpectingComma pos))"
| "parse (SAfter v) (InObj d k # stk) ((pos, t) # ts) =
     (case t of
        TComma \<Rightarrow> parse (SObjKey (dict_set d k v)) stk ts
      | TRBrace \<Rightarrow> parse (SAfter (JObj (dict_set d k v))) stk ts
      | _ \<Rightarrow> Inl (JSONDecodeError ExpectingComma pos))"

definition BOM :: string where
  "BOM = [CHR 0xEF, CHR 0xBB, CHR 0xBF]"

definition json_loads :: "string \<Rightarrow> json_error + json" where
  "json_loads s =
     (if starts_with BOM s then Inl (JSONDecodeError UnexpectedBOM 0)
      else parse SValue [] (tokens (length s) s))"

subsection \<open>\<^verbatim>\<open>parse_json_response\<close>\<close>

text \<open>
  The search \<^verbatim>\<open>re.search(r'\{[^}]*"depth_cm_estimate"[^}]*\}', content, re.DOTALL)\<close>.
  A match starts with \<^verbatim>\<open>{\<close>, ends with \<^verbatim>\<open>}\<close>, and has no \<^verbatim>\<open>}\<close> in between (the quoted
  key has none): from a given \<^verbatim>\<open>{\<close> the only candidate is the text up to the first
  \<^verbatim>\<open>}\<close> that follows, and it matches when the quoted key occurs in it. The search returns
  the match with the leftmost start.
\<close>

definition DEPTH_KEY :: string where
  "DEPTH_KEY = CHR 0x22 # ''depth_cm_estimate'' @ [CHR 0x22]"

fun contains :: "string \<Rightarrow> string \<Rightarrow> bool" where
  "contains key [] = (key = [])"
| "contains key (c # cs) = (starts_with key (c # cs) \<or> contains key cs)"

definition match_at :: "string \<Rightarrow> string option" where
  "match_at s =
     (case s of
        [] \<Rightarrow> None
      | c # cs \<Rightarrow>
          if c = CHR ''{'' \<and> dropWhile (\<lambda>x. x \<noteq> CHR ''}'') cs \<noteq> []
             \<and> contains DEPTH_KEY (takeWhile (\<lambda>x. x \<noteq> CHR ''}'') cs)
          then Some (c # takeWhile (\<lambda>x. x \<noteq> CHR ''}'') cs @ ''}'')
          else None)"

fun re_search :: "string \<Rightarrow> string option" where
  "re_search [] = None"
| "re_search (c # cs) =
     (case match_at (c # cs) of Some m \<Rightarrow> Some m | None \<Rightarrow> re_search cs)"

definition parse_json_response :: "string \<Rightarrow> json_error + json" where
  "parse_json_response content =
     (case json_loads content of
        Inr v \<Rightarrow> Inr v
      | Inl e \<Rightarrow>
          (case re_search content of
             Some m \<Rightarrow> (case json_loads m of Inr v \<Rightarrow> Inr v | Inl e' \<Rightarrow> Inl e)
           | None \<Rightarrow> Inl e))"

subsection \<open>\<^verbatim>\<open>response_schema\<close> and the depth bands\<close>

definition REQUIRED_FIELDS :: "string list" where
  "REQUIRED_FIELDS = [''depth_cm_estimate'', ''depth_range'', ''passability'', ''justification'']"

definition PASSABILITY_ENUM :: "string list" where
  "PASSABILITY_ENUM = [''pass'', ''caution'', ''unsafe'', ''unknown'']"

definition is_number :: "json \<Rightarrow> bool" where
  "is_number v = (case v of JInt n \<Rightarrow> True | JFloat l \<Rightarrow> True | _ \<Rightarrow> False)"

definition is_string :: "json \<Rightarrow> bool" where
  "is_string v = (case v of JStr s \<Rightarrow> True | _ \<Rightarrow> False)"

text \<open>
  What \<^verbatim>\<open>self.response_schema\<close> accepts: an object with the four required properties and
  no other (\<^verbatim>\<open>additionalProperties: False\<close>), a number, a string, a string of the
  enumeration, a string.
\<close>

definition response_schema :: "json \<Rightarrow> bool" where
  "response_schema v =
     (case v of
        JObj d \<Rightarrow>
          set (map fst d) = set REQUIRED_FIELDS
          \<and> (case dict_get d ''depth_cm_estimate'' of Some x \<Rightarrow> is_number x | None \<Rightarrow> False)
          \<and> (case dict_get d ''depth_range'' of Some x \<Rightarrow> is_string x | None \<Rightarrow> False)
          \<and> (case dict_get d ''passability'' of
               Some (JStr s) \<Rightarrow> s \<in> set PASSABILITY_ENUM | _ \<Rightarrow> False)
          \<and> (case dict_get d ''justification'' of Some x \<Rightarrow> is_string x | None \<Rightarrow> False)
      | _ \<Rightarrow> False)"

text \<open>
  The depth bands the prompt asks for (\<^verbatim>\<open>flood_prompt\<close>, the line of \<^verbatim>\<open>"depth_range"\<close>);
  the dash is U+2013.
\<close>

definition EN_DASH :: string where
  "EN_DASH = [CHR 0xE2, CHR 0x80, CHR 0x93]"

definition DEPTH_BANDS :: "string list" where
  "DEPTH_BANDS =
     [''<5'', ''5'' @ EN_DASH @ ''10'', ''10'' @ EN_DASH @ ''15'', ''15'' @ EN_DASH @ ''20'',
      ''20'' @ EN_DASH @ ''25'', ''25'' @ EN_DASH @ ''30'', ''30'' @ EN_DASH @ ''35'',
      ''35'' @ EN_DASH @ ''40'', ''40'' @ EN_DASH @ ''50'', ''>50'']"

subsection \<open>\<^verbatim>\<open>encode_image\<close>\<close>

text \<open>
  The exceptions that reach the handler of \<^verbatim>\<open>analyze_image\<close>, and their \<^verbatim>\<open>str\<close>: the one
  \<^verbatim>\<open>encode_image\<close> raises around the error of the read, one raised while the messages are
  prepared, and the one raised after the last round. The texts are the UTF-8 bytes of the
  literals of the source.
\<close>

datatype image_error = EncodeFailed string | PrepareFailed string | AllFailed

definition ENCODE_FAILED_PREFIX :: string where
  "ENCODE_FAILED_PREFIX =
     [CHR 0xE5, CHR 0x9B, CHR 0xBE, CHR 0xE5, CHR 0x83, CHR 0x8F, CHR 0xE7, CHR 0xBC, CHR 0x96,
      CHR 0xE7, CHR 0xA0, CHR 0x81, CHR 0xE5, CHR 0xA4, CHR 0xB1, CHR 0xE8, CHR 0xB4, CHR 0xA5,
      CHR 0x3A, CHR 0x20]"

definition ALL_FAILED_TEXT :: string where
  "ALL_FAILED_TEXT =
     [CHR 0xE6, CHR 0x89, CHR 0x80, CHR 0xE6, CHR 0x9C, CHR 0x89, CHR 0xE6, CHR 0xA8, CHR 0xA1,
      CHR 0xE5, CHR 0x9E, CHR 0x8B, CHR 0xE5, CHR 0x92, CHR 0x8C, CHR 0xE9, CHR 0x87, CHR 0x8D,
      CHR 0xE8, CHR 0xAF, CHR 0x95, CHR 0xE9, CHR 0x83, CHR 0xBD, CHR 0xE5, CHR 0xA4, CHR 0xB1,
      CHR 0xE8, CHR 0xB4, CHR 0xA5, CHR 0xE4, CHR 0xBA, CHR 0x86]"

definition ANALYSIS_FAILED_PREFIX :: string where
  "ANALYSIS_FAILED_PREFIX =
     [CHR 0xE5, CHR 0x88, CHR 0x86, CHR 0xE6, CHR 0x9E, CHR 0x90, CHR 0xE5, CHR 0xA4, CHR 0xB1,
      CHR 0xE8, CHR 0xB4, CHR 0xA5, CHR 0x3A, CHR 0x20]"

fun str_error :: "image_error \<Rightarrow> string" where
  "str_error (EncodeFailed e) = ENCODE_FAILED_PREFIX @ e"
| "str_error (PrepareFailed e) = e"
| "str_error AllFailed = ALL_FAILED_TEXT"

definition mime_types :: "(string \<times> string) list" where
  "mime_types =
     [(''.jpg'', ''image/jpeg''), (''.jpeg'', ''image/jpeg''), (''.png'', ''image/png''),
      (''.gif'', ''image/gif''), (''.webp'', ''image/webp'')]"

text \<open>
  Returns the bytes read and the media type. The Base64 text the source returns is a
  function of the bytes that cannot fail; it only feeds the request.
\<close>

definition encode_image :: "world \<Rightarrow> string \<Rightarrow> image_error + string \<times> string" where
  "encode_image w image_path =
     (case read_bytes w image_path of
        Inl e \<Rightarrow> Inl (EncodeFailed e)
      | Inr bytes \<Rightarrow>
          Inr (bytes,
               case map_of mime_types (lower (path_suffix (path_name image_path))) of
                 Some m \<Rightarrow> m
               | None \<Rightarrow> ''image/jpeg''))"

subsection \<open>\<^verbatim>\<open>analyze_image\<close>\<close>

datatype event = Request string nat string | Sleep rat | WriteReport string json

definition models_to_try :: "string list" where
  "models_to_try = [''gpt-4o'', ''gpt-4o-mini'']"

text \<open>
  What ends one attempt inside the inner \<^verbatim>\<open>try\<close>: the request raised, the content was
  empty, \<^verbatim>\<open>parse_json_response\<close> raised, or the decoded value has no \<^verbatim>\<open>get\<close>
  (\<^verbatim>\<open>AttributeError\<close>: it is not a dictionary). Each is caught by
  \<^verbatim>\<open>except Exception as model_error\<close>.
\<close>

datatype model_error =
    CallFailed string
  | EmptyResponse
  | DecodeFailed json_error
  | NotADict

definition success_record :: "world \<Rightarrow> string \<Rightarrow> string \<Rightarrow> (string \<times> json) list \<Rightarrow> (string \<times> json) list" where
  "success_record w image_path model analysis_data =
     dict_update
       [(''filename'', JStr (path_name image_path)),
        (''filepath'', JStr image_path),
        (''timestamp'', JStr (datetime_now w image_path)),
        (''model_used'', JStr model),
        (''analysis_success'', JBool True)]
       analysis_data"

definition failure_record :: "world \<Rightarrow> string \<Rightarrow> image_error \<Rightarrow> (string \<times> json) list" where
  "failure_record w image_path e =
     [(''filename'', JStr (path_name image_path)),
      (''filepath'', JStr image_path),
      (''timestamp'', JStr (datetime_now w image_path)),
      (''model_used'', JStr ''none''),
      (''analysis_success'', JBool False),
      (''error'', JStr (str_error e)),
      (''depth_cm_estimate'', JNull),
      (''depth_range'', JStr ''unknown''),
      (''passability'', JStr ''unknown''),
      (''justification'', JStr (ANALYSIS_FAILED_PREFIX @ str_error e))]"

text \<open>
  The body of the inner \<^verbatim>\<open>try\<close> for one model in one round, up to the \<^verbatim>\<open>return\<close>.
  The messages of the request are built before the loop, from the image and the cached
  examples; what the reply is, whatever the messages, is the world's.
\<close>

definition attempt_model :: "world \<Rightarrow> string \<Rightarrow> nat \<Rightarrow> string \<Rightarrow> model_error + (string \<times> json) list" where
  "attempt_model w image_path attempt model =
     (case chat_completions_create w image_path attempt model of
        ApiRaises msg \<Rightarrow> Inl (CallFailed msg)
      | ApiContent None \<Rightarrow> Inl EmptyResponse
      | ApiContent (Some content) \<Rightarrow>
          if content = [] then Inl EmptyResponse
          else
            (case parse_json_response content of
               Inl e \<Rightarrow> Inl (DecodeFailed e)
             | Inr (JObj analysis_data) \<Rightarrow> Inr (success_record w image_path model analysis_data)
             | Inr _ \<Rightarrow> Inl NotADict))"

text \<open>\<^verbatim>\<open>for model in models_to_try\<close>: the record returned, if any, and the requests sent.\<close>

fun try_models :: "world \<Rightarrow> string \<Rightarrow> nat \<Rightarrow> string list \<Rightarrow> (string \<times> json) list option \<times> event list" where
  "try_models w image_path attempt [] = (None, [])"
| "try_models w image_path attempt (model # models) =
     (case attempt_model w image_path attempt model of
        Inr r \<Rightarrow> (Some r, [Request image_path attempt model])
      | Inl model_error \<Rightarrow>
          (case try_models w image_path attempt models of
             (res, tr) \<Rightarrow> (res, Request image_path attempt model # tr)))"

text \<open>
  \<^verbatim>\<open>for attempt in range(max_retries)\<close>, over the attempts that remain: a round without a
  record is followed by the pause \<^verbatim>\<open>(attempt + 1) * 2\<close> when
  \<^verbatim>\<open>attempt < max_retries - 1\<close>.
\<close>

fun retry_rounds :: "world \<Rightarrow> string \<Rightarrow> int \<Rightarrow> nat list \<Rightarrow> (string \<times> json) list option \<times> event list" where
  "retry_rounds w image_path max_retries [] = (None, [])"
| "retry_rounds w image_path max_retries (attempt # attempts) =
     (case try_models w image_path attempt models_to_try of
        (Some r, tr) \<Rightarrow> (Some r, tr)
      | (None, tr) \<Rightarrow>
          (case retry_rounds w image_path max_retries attempts of
             (res, tr') \<Rightarrow>
               (res,
                tr @ (if int attempt < max_retries - 1
                      then [Sleep (of_nat ((attempt + 1) * 2))] else []) @ tr')))"

text \<open>The body of the outer \<^verbatim>\<open>try\<close>: the record it returns or the exception it raises.\<close>

definition analyze_image_try :: "world \<Rightarrow> string \<Rightarrow> int \<Rightarrow> (image_error + (string \<times> json) list) \<times> event list" where
  "analyze_image_try w image_path max_retries =
     (case encode_image w image_path of
        Inl e \<Rightarrow> (Inl e, [])
      | Inr encoded \<Rightarrow>
          (case fewshot_error w image_path of
             Some e \<Rightarrow> (Inl (PrepareFailed e), [])
           | None \<Rightarrow>
               (case retry_rounds w image_path max_retries [0..<nat max_retries] of
                  (Some r, tr) \<Rightarrow> (Inr r, tr)
                | (None, tr) \<Rightarrow> (Inl AllFailed, tr))))"

definition analyze_image :: "world \<Rightarrow> string \<Rightarrow> int \<Rightarrow> (string \<times> json) list \<times> event list" where
  "analyze_image w image_path max_retries =
     (case analyze_image_try w image_path max_retries of
        (Inr r, tr) \<Rightarrow> (r, tr)
      | (Inl e, tr) \<Rightarrow> (failure_record w image_path e, tr))"

subsection \<open>\<^verbatim>\<open>analyze_batch\<close>\<close>

text \<open>
  The truth value of a Python value (\<^verbatim>\<open>if result["analysis_success"]\<close>). A \<^verbatim>\<open>float\<close> is
  false when it is zero: when its literal has only zero digits, or denotes a number that
  rounds to zero, that is, at most \<open>2\<^sup>-\<^sup>1\<^sup>0\<^sup>7\<^sup>5\<close>.
\<close>

definition exp_val :: "string \<Rightarrow> int" where
  "exp_val ep =
     (case drop 1 ep of
        [] \<Rightarrow> 0
      | d # ds \<Rightarrow>
          if d = CHR ''-'' then - digits_val ds
          else if d = CHR ''+'' then digits_val ds
          else digits_val (d # ds))"

definition float_is_zero :: "string \<Rightarrow> bool" where
  "float_is_zero l =
     (if l = ''NaN'' \<or> l = ''Infinity'' \<or> l = ''-Infinity'' then False
      else
        (case scan_sign l of
           (sg, s1) \<Rightarrow>
             (case scan_frac (dropWhile is_digit s1) of
                (fp, s2) \<Rightarrow>
                  (case scan_exp s2 of
                     (ep, s3) \<Rightarrow>
                       let m = digits_val (takeWhile is_digit s1 @ drop 1 fp);
                           e = exp_val ep - int (length (drop 1 fp))
                       in m = 0 \<or> (e < 0 \<and> m * 2 ^ 1075 \<le> 10 ^ nat (- e))))))"

definition truthy :: "json \<Rightarrow> bool" where
  "truthy v =
     (case v of
        JNull \<Rightarrow> False
      | JBool b \<Rightarrow> b
      | JInt n \<Rightarrow> n \<noteq> 0
      | JFloat l \<Rightarrow> \<not> float_is_zero l
      | JStr s \<Rightarrow> s \<noteq> []
      | JArr xs \<Rightarrow> xs \<noteq> []
      | JObj d \<Rightarrow> d \<noteq> [])"

text \<open>
  \<^verbatim>\<open>result["analysis_success"]\<close>: every record \<^verbatim>\<open>analyze_image\<close> returns has the key
  (lemma \<open>analysis_success_present\<close> below), so the \<^verbatim>\<open>KeyError\<close> of a missing key does not
  arise.
\<close>

definition is_success :: "(string \<times> json) list \<Rightarrow> bool" where
  "is_success result =
     (case dict_get result ''analysis_success'' of Some v \<Rightarrow> truthy v | None \<Rightarrow> False)"

text \<open>
  The loop over the image files, from the state \<^verbatim>\<open>(results, success_count)\<close> and the trace
  so far. \<^verbatim>\<open>analyze_image\<close> is called with the default \<^verbatim>\<open>max_retries = 3\<close>, and each
  image is followed by \<^verbatim>\<open>time.sleep(0.5)\<close>.
\<close>

fun batch_loop :: "world \<Rightarrow> string list \<Rightarrow> (string \<times> json) list list \<times> nat \<times> event list
    \<Rightarrow> (string \<times> json) list list \<times> nat \<times> event list" where
  "batch_loop w [] st = st"
| "batch_loop w (image_file # image_files) (results, success_count, tr) =
     (case analyze_image w image_file 3 of
        (result, tr') \<Rightarrow>
          batch_loop w image_files
            (results @ [result],
             (if is_success result then success_count + 1 else success_count),
             tr @ tr' @ [Sleep (1 / 2)]))"

datatype batch_error = FileNotFoundError string | ListingFailed string | WriteFailed string

definition empty_summary :: "world \<Rightarrow> (string \<times> json) list" where
  "empty_summary w =
     [(''total_images'', JInt 0),
      (''successful_analyses'', JInt 0),
      (''failed_analyses'', JInt 0),
      (''success_rate'', JStr ''0.0%''),
      (''analysis_timestamp'', JStr (summary_now w))]"

definition batch_summary :: "world \<Rightarrow> nat \<Rightarrow> nat \<Rightarrow> (string \<times> json) list" where
  "batch_summary w n success_count =
     [(''total_images'', JInt (int n)),
      (''successful_analyses'', JInt (int success_count)),
      (''failed_analyses'', JInt (int n - int success_count)),
      (''success_rate'', JStr (percent_1f w success_count n)),
      (''analysis_timestamp'', JStr (summary_now w))]"

text \<open>
  Returns what the call returns or raises, and the trace. A \<open>WriteReport\<close> event is the
  report file written with the document \<^verbatim>\<open>json.dump\<close> serializes.
\<close>

definition analyze_batch :: "world \<Rightarrow> string \<Rightarrow> string \<Rightarrow> (batch_error + json) \<times> event list" where
  "analyze_batch w images_dir output_file =
     (if \<not> path_exists w images_dir then (Inl (FileNotFoundError images_dir), [])
      else
        (case get_image_files w images_dir of
           Inl e \<Rightarrow> (Inl (ListingFailed e), [])
         | Inr image_files \<Rightarrow>
             if image_files = [] then
               (Inr (JObj [(''results'', JArr []), (''summary'', JObj (empty_summary w))]), [])
             else
               (case batch_loop w image_files ([], 0, []) of
                  (results, success_count, tr) \<Rightarrow>
                    let output_data =
                          JObj [(''summary'',
                                 JObj (batch_summary w (length image_files) success_count)),
                                (''results'', JArr (map JObj results))]
                    in case open_write w output_file of
                         Some e \<Rightarrow> (Inl (WriteFailed e), tr)
                       | None \<Rightarrow> (Inr output_data, tr @ [WriteReport output_file output_data]))))"

subsection \<open>Notions used to state the properties\<close>

text \<open>
  The events of one round in which no model produced a record: one request per model, in
  the order of the list, then the pause when another round follows.
\<close>

definition round_trace :: "string \<Rightarrow> int \<Rightarrow> nat \<Rightarrow> event list" where
  "round_trace image_path max_retries attempt =
     map (Request image_path attempt) models_to_try
     @ (if int attempt + 1 < max_retries then [Sleep (of_nat (2 * (attempt + 1)))] else [])"

text \<open>
  What \<^verbatim>\<open>parse_json_response\<close> returns for the reply to one request, \<open>None\<close> when the
  request raises, the content is empty or the parser raises: the model
  ``returned content that parses''.
\<close>

definition decoded_reply :: "world \<Rightarrow> string \<Rightarrow> nat \<Rightarrow> string \<Rightarrow> json option" where
  "decoded_reply w image_path attempt model =
     (case chat_completions_create w image_path attempt model of
        ApiContent (Some content) \<Rightarrow>
          if content = [] then None
          else (case parse_json_response content of Inr v \<Rightarrow> Some v | Inl e \<Rightarrow> None)
      | _ \<Rightarrow> None)"

text \<open>The key set of a decoded value is exactly the four required fields.\<close>

definition exactly_required_fields :: "json \<Rightarrow> bool" where
  "exactly_required_fields v =
     (case v of JObj d \<Rightarrow> set (map fst d) = set REQUIRED_FIELDS | _ \<Rightarrow> False)"

text \<open>
  Invariants of the decoder, used to show that a decoded object has distinct keys: of a
  value, of a token, of a state and of a frame of the stack machine.
\<close>

definition distinct_keys :: "json \<Rightarrow> bool" where
  "distinct_keys v = (case v of JObj d \<Rightarrow> distinct (map fst d) | _ \<Rightarrow> True)"

definition token_ok :: "token \<Rightarrow> bool" where
  "token_ok t = (case t of TScalar v \<Rightarrow> distinct_keys v | _ \<Rightarrow> True)"

definition pstate_ok :: "pstate \<Rightarrow> bool" where
  "pstate_ok st =
     (case st of
        SObjKey d \<Rightarrow> distinct (map fst d)
      | SColon d k \<Rightarrow> distinct (map fst d)
      | SAfter v \<Rightarrow> distinct_keys v
      | _ \<Rightarrow> True)"

definition frame_ok :: "frame \<Rightarrow> bool" where
  "frame_ok f = (case f of InObj d k \<Rightarrow> distinct (map fst d) | InArr vs \<Rightarrow> True)"

subsection \<open>Concrete inputs\<close>

definition quoted :: "string \<Rightarrow> string" where
  "quoted s = CHR 0x22 # s @ [CHR 0x22]"

text \<open>
  A world in which every path exists and is a file, every read succeeds, the messages are
  built, every request raises, the directory is empty and the report can be written.
\<close>

definition quiet_world :: world where
  "quiet_world =
     \<lparr> path_exists = (\<lambda>p. True),
       iterdir = (\<lambda>d. Inr []),
       is_file = (\<lambda>p. True),
       read_bytes = (\<lambda>p. Inr ''bytes''),
       fewshot_error = (\<lambda>p. None),
       chat_completions_create = (\<lambda>p a m. ApiRaises ''timeout''),
       datetime_now = (\<lambda>p. ''2025-01-01T00:00:00''),
       summary_now = ''2025-01-01T00:05:00'',
       open_write = (\<lambda>f. None),
       percent_1f = (\<lambda>s n. ''?'') \<rparr>"


definition example_order :: "string list" where
  "example_order = [''imgs/2.png'', ''imgs/9.jpg'', ''imgs/29.jpg'', ''imgs/report.jpg'']"


text \<open>Contents of replies, and what they decode to.\<close>

definition partial_object_text :: string where
  "partial_object_text = ''{'' @ quoted ''depth_cm_estimate'' @ '': 5}''"

definition recovered_text :: string where
  "recovered_text = ''ok '' @ partial_object_text @ '' thanks''"

definition brace_object_text :: string where
  "brace_object_text =
     ''{'' @ quoted ''depth_cm_estimate'' @ '': 5, '' @ quoted ''justification'' @ '': ''
     @ quoted ''a } b'' @ ''}''"

definition brace_text :: string where
  "brace_text = ''Result: '' @ brace_object_text"

definition good_reply :: string where
  "good_reply =
     ''{'' @ quoted ''depth_cm_estimate'' @ '': 12, '' @ quoted ''depth_range'' @ '': ''
     @ quoted (''10'' @ EN_DASH @ ''15'') @ '', '' @ quoted ''passability'' @ '': ''
     @ quoted ''pass'' @ '', '' @ quoted ''justification'' @ '': ''
     @ quoted ''water near wheel-stop top'' @ ''}''"

definition good_data :: "(string \<times> json) list" where
  "good_data =
     [(''depth_cm_estimate'', JInt 12), (''depth_range'', JStr (''10'' @ EN_DASH @ ''15'')),
      (''passability'', JStr ''pass''), (''justification'', JStr ''water near wheel-stop top'')]"

definition loose_reply :: string where
  "loose_reply =
     ''{'' @ quoted ''depth_cm_estimate'' @ '': 7, '' @ quoted ''depth_range'' @ '': ''
     @ quoted ''deep'' @ '', '' @ quoted ''passability'' @ '': ''
     @ quoted ''unknown'' @ '', '' @ quoted ''justification'' @ '': ''
     @ quoted ''murky'' @ ''}''"

definition loose_data :: "(string \<times> json) list" where
  "loose_data =
     [(''depth_cm_estimate'', JInt 7), (''depth_range'', JStr ''deep''),
      (''passability'', JStr ''unknown''), (''justification'', JStr ''murky'')]"

definition error_reply :: string where
  "error_reply = ''{'' @ quoted ''error'' @ '': '' @ quoted ''x'' @ ''}''"

definition flag_reply :: string where
  "flag_reply = ''{'' @ quoted ''analysis_success'' @ '': false}''"


text \<open>Every request is answered with the same content.\<close>

definition reply_world :: "string \<Rightarrow> world" where
  "reply_world content =
     quiet_world \<lparr> chat_completions_create := (\<lambda>p a m. ApiContent (Some content)) \<rparr>"


definition unreadable_world :: world where
  "unreadable_world = quiet_world \<lparr> read_bytes := (\<lambda>p. Inl ''No such file'') \<rparr>"


text \<open>Every request would be answered with a conforming object, but no image can be read.\<close>

definition unread_reply_world :: world where
  "unread_reply_world = reply_world good_reply \<lparr> read_bytes := (\<lambda>p. Inl ''No such file'') \<rparr>"

section \<open>Properties\<close>

subsection \<open>Ordering of the image files\<close>

lemma NumKey_le [simp]: "(NumKey m \<le> NumKey n) = (m \<le> n)"
  by (simp add: less_eq_order_key_def)

lemma NameKey_le [simp]: "(NameKey s \<le> NameKey t) = (s \<le> t)"
  by (simp add: less_eq_order_key_def)

lemma NumKey_le_NameKey [simp]: "NumKey m \<le> NameKey t"
  by (simp add: less_eq_order_key_def)

lemma NameKey_le_NumKey [simp]: "\<not> NameKey t \<le> NumKey m"
  by (simp add: less_eq_order_key_def)






lemma example_suffixes: "\<forall>p\<in>set example_order. lower (path_suffix (path_name p)) \<in> set SUPPORTED_FORMATS"
  by code_simp






subsection \<open>Dictionaries\<close>

lemma map_of_dict_set: "map_of (dict_set d k v) = (map_of d)(k \<mapsto> v)"
  by (induction d k v rule: dict_set.induct) auto

lemma keys_dict_set: "fst ` set (dict_set d k v) = insert k (fst ` set d)"
  by (induction d k v rule: dict_set.induct) auto

lemma in_dict_set_key: "(a, b) \<in> set (dict_set d k v) \<Longrightarrow> a = k \<or> a \<in> fst ` set d"
  using keys_dict_set [of d k v] by (metis fst_conv image_eqI insertE)

lemma distinct_dict_set: "distinct (map fst d) \<Longrightarrow> distinct (map fst (dict_set d k v))"
  by (induction d k v rule: dict_set.induct) (auto dest: in_dict_set_key)

lemma dict_get_dict_update:
  "distinct (map fst e) \<Longrightarrow>
   dict_get (dict_update d e) k = (case dict_get e k of Some v \<Rightarrow> Some v | None \<Rightarrow> dict_get d k)"
proof (induction d e rule: dict_update.induct)
  case (1 d)
  then show ?case by (simp add: dict_get_def)
next
  case (2 d k' v' e)
  then have "k' \<notin> fst ` set e" by simp
  then have "map_of e k' = None" by (simp add: map_of_eq_None_iff)
  with 2 show ?case
    by (auto simp: map_of_dict_set dict_get_def split: option.splits)
qed

subsection \<open>Decoded objects have distinct keys\<close>

lemma scan_number_distinct: "scan_number s = Some (v, r) \<Longrightarrow> distinct_keys v"
  by (auto simp: scan_number_def distinct_keys_def split: prod.splits option.splits if_splits)

lemma scan_scalar_distinct: "scan_scalar s = Some (v, r) \<Longrightarrow> distinct_keys v"
  by (auto simp: scan_scalar_def distinct_keys_def split: if_splits option.splits
      dest: scan_number_distinct)

lemma tokens_ok: "(p, t) \<in> set (tokens n s) \<Longrightarrow> token_ok t"
proof (induction n s rule: tokens.induct)
  case (1 n)
  then show ?case by (simp add: token_ok_def)
next
  case (2 n c cs)
  then show ?case
    by (auto simp: token_ok_def distinct_keys_def split: if_splits sum.splits option.splits
        dest: scan_scalar_distinct)
qed

lemma parse_distinct:
  "parse st stk ts = Inr v \<Longrightarrow> pstate_ok st \<Longrightarrow> list_all frame_ok stk \<Longrightarrow>
   (\<forall>(p, t)\<in>set ts. token_ok t) \<Longrightarrow> distinct_keys v"
proof (induction st stk ts rule: parse.induct)
  case (1 st stk)
  then show ?case by simp
next
  case (2 stk pos t ts)
  then show ?case
    by (cases t) (auto simp: pstate_ok_def token_ok_def)
next
  case (3 stk pos t ts)
  then show ?case
    by (cases t) (auto simp: pstate_ok_def token_ok_def frame_ok_def distinct_keys_def)
next
  case (4 stk pos t ts)
  then show ?case
    by (cases t) (auto simp: pstate_ok_def token_ok_def distinct_keys_def split: json.splits)
next
  case (5 d stk pos t ts)
  then show ?case
    by (cases t) (auto simp: pstate_ok_def token_ok_def split: json.splits)
next
  case (6 d k stk pos t ts)
  then show ?case
    by (cases t) (auto simp: pstate_ok_def frame_ok_def)
next
  case (7 v pos t ts)
  then show ?case
    by (cases t) (auto simp: pstate_ok_def)
next
  case (8 v vs stk pos t ts)
  then show ?case
    by (cases t) (auto simp: pstate_ok_def frame_ok_def distinct_keys_def)
next
  case (9 v d k stk pos t ts)
  then show ?case
    by (cases t) (auto simp: pstate_ok_def frame_ok_def distinct_keys_def distinct_dict_set)
qed

lemma json_loads_distinct: "json_loads s = Inr (JObj d) \<Longrightarrow> distinct (map fst d)"
proof -
  assume a: "json_loads s = Inr (JObj d)"
  then have "parse SValue [] (tokens (length s) s) = Inr (JObj d)"
    by (simp add: json_loads_def split: if_splits)
  then have "distinct_keys (JObj d)"
    by (rule parse_distinct) (auto simp: pstate_ok_def dest: tokens_ok)
  then show ?thesis by (simp add: distinct_keys_def)
qed

lemma parse_json_response_cases:
  "parse_json_response content = Inr v \<Longrightarrow>
   json_loads content = Inr v
   \<or> (\<exists>e m. json_loads content = Inl e \<and> re_search content = Some m \<and> json_loads m = Inr v)"
  by (auto simp: parse_json_response_def split: sum.splits option.splits)

lemma parse_json_response_distinct:
  "parse_json_response content = Inr (JObj d) \<Longrightarrow> distinct (map fst d)"
  by (auto dest!: parse_json_response_cases dest: json_loads_distinct)

lemma parse_json_response_error:
  "parse_json_response content = Inl e \<Longrightarrow> json_loads content = Inl e"
  by (auto simp: parse_json_response_def split: sum.splits option.splits)

subsection \<open>The recovery search\<close>

lemma match_at_Some:
  assumes "match_at s = Some m"
  shows "\<exists>body post. s = CHR ''{'' # body @ CHR ''}'' # post \<and> m = CHR ''{'' # body @ ''}''
           \<and> CHR ''}'' \<notin> set body \<and> contains DEPTH_KEY body"
proof (cases s)
  case Nil
  with assms show ?thesis by (simp add: match_at_def)
next
  case (Cons c cs)
  let ?P = "\<lambda>x. x \<noteq> CHR ''}''"
  from assms Cons have c: "c = CHR ''{''" and d: "dropWhile ?P cs \<noteq> []"
    and k: "contains DEPTH_KEY (takeWhile ?P cs)" and m: "m = c # takeWhile ?P cs @ ''}''"
    by (auto simp: match_at_def split: if_splits)
  from d have "hd (dropWhile ?P cs) = CHR ''}''"
    using hd_dropWhile [of ?P cs] by simp
  with d have "dropWhile ?P cs = CHR ''}'' # tl (dropWhile ?P cs)"
    by (cases "dropWhile ?P cs") auto
  then have "cs = takeWhile ?P cs @ CHR ''}'' # tl (dropWhile ?P cs)"
    by (metis takeWhile_dropWhile_id)
  moreover have "CHR ''}'' \<notin> set (takeWhile ?P cs)"
    by (auto dest: set_takeWhileD)
  ultimately show ?thesis
    using Cons c k m by blast
qed

lemma match_at_intro:
  assumes "CHR ''}'' \<notin> set body" and "contains DEPTH_KEY body"
  shows "match_at (CHR ''{'' # body @ CHR ''}'' # post) = Some (CHR ''{'' # body @ ''}'')"
proof -
  let ?P = "\<lambda>x. x \<noteq> CHR ''}''"
  from assms(1) have all: "\<forall>x\<in>set body. ?P x"
    by blast
  then have "takeWhile ?P (body @ CHR ''}'' # post) = body"
    by (induction body) auto
  moreover from all have "dropWhile ?P (body @ CHR ''}'' # post) = CHR ''}'' # post"
    by (induction body) auto
  ultimately show ?thesis
    using assms(2) by (simp add: match_at_def)
qed

lemma re_search_Some:
  "re_search s = Some m \<Longrightarrow>
   \<exists>pre body post. s = pre @ m @ post \<and> m = CHR ''{'' # body @ ''}''
     \<and> CHR ''}'' \<notin> set body \<and> contains DEPTH_KEY body"
proof (induction s)
  case Nil
  then show ?case by simp
next
  case (Cons c cs)
  show ?case
  proof (cases "match_at (c # cs)")
    case None
    with Cons.prems have "re_search cs = Some m" by simp
    from Cons.IH [OF this] obtain pre body post where
      "cs = pre @ m @ post" "m = CHR ''{'' # body @ ''}''"
      "CHR ''}'' \<notin> set body" "contains DEPTH_KEY body"
      by blast
    then have "c # cs = (c # pre) @ m @ post \<and> m = CHR ''{'' # body @ ''}''
        \<and> CHR ''}'' \<notin> set body \<and> contains DEPTH_KEY body"
      by simp
    then show ?thesis by blast
  next
    case (Some m')
    with Cons.prems have "m' = m" by simp
    with Some match_at_Some [of "c # cs" m] obtain body post where
      "c # cs = CHR ''{'' # body @ CHR ''}'' # post" "m = CHR ''{'' # body @ ''}''"
      "CHR ''}'' \<notin> set body" "contains DEPTH_KEY body"
      by blast
    then have "c # cs = [] @ m @ post \<and> m = CHR ''{'' # body @ ''}''
        \<and> CHR ''}'' \<notin> set body \<and> contains DEPTH_KEY body"
      by simp
    then show ?thesis by blast
  qed
qed

lemma re_search_skip: "CHR ''{'' \<notin> set pre \<Longrightarrow> re_search (pre @ s) = re_search s"
  by (induction pre) (auto simp: match_at_def)

lemma re_search_found:
  assumes "CHR ''{'' \<notin> set pre" and "CHR ''}'' \<notin> set body" and "contains DEPTH_KEY body"
  shows "re_search (pre @ CHR ''{'' # body @ CHR ''}'' # post) = Some (CHR ''{'' # body @ ''}'')"
  using assms by (simp add: re_search_skip match_at_intro)

subsection \<open>What the parser returns\<close>

text \<open>
  C1 as stated fails. A content whose only field is \<^verbatim>\<open>depth_cm_estimate\<close> is returned as
  decoded, by the direct decoding and by the recovery alike: three of the four required
  fields are missing from the returned object.
\<close>

theorem parse_json_response_fields_counterexample:
  "parse_json_response partial_object_text = Inr (JObj [(''depth_cm_estimate'', JInt 5)])
   \<and> parse_json_response recovered_text = Inr (JObj [(''depth_cm_estimate'', JInt 5)])
   \<and> \<not> exactly_required_fields (JObj [(''depth_cm_estimate'', JInt 5)])"
  by code_simp

text \<open>
  C1, as amended. Whenever \<^verbatim>\<open>parse_json_response\<close> returns, it returns what \<^verbatim>\<open>json.loads\<close>
  decodes from the whole content or, when the content does not decode, from the leftmost
  match of the recovery pattern in it: a text from a \<^verbatim>\<open>{\<close> to the first \<^verbatim>\<open>}\<close> after it that
  has the quoted key \<^verbatim>\<open>depth_cm_estimate\<close> inside. The parser adds no field to the decoded
  value and checks none: the four required fields are there when the decoded text has them.
\<close>

theorem parse_json_response_returns_decoded:
  assumes "parse_json_response content = Inr v"
  shows "json_loads content = Inr v
         \<or> (\<exists>e pre body post. json_loads content = Inl e
               \<and> content = pre @ ''{'' @ body @ ''}'' @ post
               \<and> re_search content = Some (''{'' @ body @ ''}'')
               \<and> CHR ''}'' \<notin> set body \<and> contains DEPTH_KEY body
               \<and> json_loads (''{'' @ body @ ''}'') = Inr v)"
proof -
  from parse_json_response_cases [OF assms] show ?thesis
  proof
    assume "json_loads content = Inr v"
    then show ?thesis ..
  next
    assume "\<exists>e m. json_loads content = Inl e \<and> re_search content = Some m \<and> json_loads m = Inr v"
    then obtain e m where e: "json_loads content = Inl e" and m: "re_search content = Some m"
      and v: "json_loads m = Inr v"
      by blast
    from re_search_Some [OF m] obtain pre body post where
      "content = pre @ m @ post" "m = CHR ''{'' # body @ ''}''"
      "CHR ''}'' \<notin> set body" "contains DEPTH_KEY body"
      by blast
    with e m v have "json_loads content = Inl e
        \<and> content = pre @ ''{'' @ body @ ''}'' @ post
        \<and> re_search content = Some (''{'' @ body @ ''}'')
        \<and> CHR ''}'' \<notin> set body \<and> contains DEPTH_KEY body
        \<and> json_loads (''{'' @ body @ ''}'') = Inr v"
      by simp
    then show ?thesis by blast
  qed
qed

text \<open>C1, as amended, at a content recovered from prose.\<close>

theorem parse_json_response_returns_decoded_witness:
  "parse_json_response recovered_text = Inr (JObj [(''depth_cm_estimate'', JInt 5)])
   \<and> json_loads recovered_text \<noteq> Inr (JObj [(''depth_cm_estimate'', JInt 5)])
   \<and> (\<exists>e pre body post. json_loads recovered_text = Inl e
         \<and> recovered_text = pre @ ''{'' @ body @ ''}'' @ post
         \<and> re_search recovered_text = Some (''{'' @ body @ ''}'')
         \<and> CHR ''}'' \<notin> set body \<and> contains DEPTH_KEY body
         \<and> json_loads (''{'' @ body @ ''}'') = Inr (JObj [(''depth_cm_estimate'', JInt 5)]))"
proof -
  have h: "parse_json_response recovered_text = Inr (JObj [(''depth_cm_estimate'', JInt 5)])"
    by code_simp
  have n: "json_loads recovered_text \<noteq> Inr (JObj [(''depth_cm_estimate'', JInt 5)])"
    by code_simp
  from parse_json_response_returns_decoded [OF h] h n show ?thesis
    by blast
qed

subsection \<open>Recovery from a content that does not decode\<close>

text \<open>
  C8 as stated fails. The content is prose followed by an object that decodes on its own
  and has the key \<^verbatim>\<open>depth_cm_estimate\<close>, but whose justification contains a \<^verbatim>\<open>}\<close>. The match
  of the recovery pattern ends at that \<^verbatim>\<open>}\<close> and does not decode: the parser raises the
  original error instead of returning the object.
\<close>

theorem parse_json_response_recovery_counterexample:
  "brace_text = ''Result: '' @ brace_object_text @ []
   \<and> json_loads brace_text = Inl (JSONDecodeError ExpectingValue 0)
   \<and> json_loads brace_object_text
       = Inr (JObj [(''depth_cm_estimate'', JInt 5), (''justification'', JStr ''a } b'')])
   \<and> parse_json_response brace_text = Inl (JSONDecodeError ExpectingValue 0)"
  by code_simp

text \<open>
  C8, as amended. Let \<^verbatim>\<open>json.loads\<close> reject the content with the error \<open>e\<close>. An object
  embedded in prose is recovered and returned when no \<^verbatim>\<open>{\<close> occurs before it and no \<^verbatim>\<open>}\<close>
  inside it, it contains the quoted key \<^verbatim>\<open>depth_cm_estimate\<close> and it decodes on its own. In
  general the parser returns the decoding of the leftmost match of the recovery pattern
  when that match decodes. In every other case (no match, or a match that does not
  decode) it raises \<open>e\<close> again, and \<open>e\<close> is the only error it ever raises.
\<close>

theorem parse_json_response_recovery:
  assumes "json_loads content = Inl e"
  shows "(\<forall>pre body post v.
            content = pre @ ''{'' @ body @ ''}'' @ post
            \<and> CHR ''{'' \<notin> set pre \<and> CHR ''}'' \<notin> set body \<and> contains DEPTH_KEY body
            \<and> json_loads (''{'' @ body @ ''}'') = Inr v
            \<longrightarrow> parse_json_response content = Inr v)
         \<and> (\<forall>m. re_search content = Some m \<longrightarrow>
               parse_json_response content
                 = (case json_loads m of Inr v \<Rightarrow> Inr v | Inl e' \<Rightarrow> Inl e))
         \<and> (re_search content = None \<longrightarrow> parse_json_response content = Inl e)
         \<and> (\<forall>e'. parse_json_response content = Inl e' \<longrightarrow> e' = e)"
proof (intro conjI allI impI)
  fix pre body post v
  assume a: "content = pre @ ''{'' @ body @ ''}'' @ post
      \<and> CHR ''{'' \<notin> set pre \<and> CHR ''}'' \<notin> set body \<and> contains DEPTH_KEY body
      \<and> json_loads (''{'' @ body @ ''}'') = Inr v"
  then have "re_search content = Some (CHR ''{'' # body @ ''}'')"
    using re_search_found [of pre body post] by simp
  with a assms show "parse_json_response content = Inr v"
    by (simp add: parse_json_response_def)
next
  fix m
  assume "re_search content = Some m"
  with assms show "parse_json_response content
      = (case json_loads m of Inr v \<Rightarrow> Inr v | Inl e' \<Rightarrow> Inl e)"
    by (simp add: parse_json_response_def split: sum.splits)
next
  assume "re_search content = None"
  with assms show "parse_json_response content = Inl e"
    by (simp add: parse_json_response_def)
next
  fix e'
  assume "parse_json_response content = Inl e'"
  then have "json_loads content = Inl e'"
    by (rule parse_json_response_error)
  with assms show "e' = e" by simp
qed

text \<open>C8, as amended, at a content recovered from prose and at one with no object.\<close>

theorem parse_json_response_recovery_witness:
  "json_loads recovered_text = Inl (JSONDecodeError ExpectingValue 0)
   \<and> parse_json_response recovered_text = Inr (JObj [(''depth_cm_estimate'', JInt 5)])
   \<and> json_loads ''no object here'' = Inl (JSONDecodeError ExpectingValue 0)
   \<and> parse_json_response ''no object here'' = Inl (JSONDecodeError ExpectingValue 0)"
proof -
  have h: "json_loads recovered_text = Inl (JSONDecodeError ExpectingValue 0)"
    by code_simp
  have split: "recovered_text
      = ''ok '' @ ''{'' @ (quoted ''depth_cm_estimate'' @ '': 5'') @ ''}'' @ '' thanks''
      \<and> CHR ''{'' \<notin> set ''ok '' \<and> CHR ''}'' \<notin> set (quoted ''depth_cm_estimate'' @ '': 5'')
      \<and> contains DEPTH_KEY (quoted ''depth_cm_estimate'' @ '': 5'')
      \<and> json_loads (''{'' @ (quoted ''depth_cm_estimate'' @ '': 5'') @ ''}'')
          = Inr (JObj [(''depth_cm_estimate'', JInt 5)])"
    by code_simp
  have r: "parse_json_response recovered_text = Inr (JObj [(''depth_cm_estimate'', JInt 5)])"
    using parse_json_response_recovery [OF h] split by blast
  have g: "json_loads ''no object here'' = Inl (JSONDecodeError ExpectingValue 0)"
    by code_simp
  have "re_search ''no object here'' = None"
    by code_simp
  with parse_json_response_recovery [OF g]
  have "parse_json_response ''no object here'' = Inl (JSONDecodeError ExpectingValue 0)"
    by blast
  with h r g show ?thesis by blast
qed

subsection \<open>One attempt\<close>

lemma attempt_model_Inr:
  "attempt_model w p a m = Inr r \<longleftrightarrow>
   (\<exists>d. decoded_reply w p a m = Some (JObj d) \<and> r = success_record w p m d)"
  by (auto simp: attempt_model_def decoded_reply_def
      split: api_result.splits option.splits sum.splits json.splits if_splits)


lemma decoded_reply_distinct: "decoded_reply w p a m = Some (JObj d) \<Longrightarrow> distinct (map fst d)"
  by (auto simp: decoded_reply_def dest: parse_json_response_distinct
      split: api_result.splits option.splits sum.splits if_splits)

subsection \<open>The loop over the models\<close>

lemma try_models_all_fail:
  "\<forall>m\<in>set ms. isl (attempt_model w p a m) \<Longrightarrow>
   try_models w p a ms = (None, map (Request p a) ms)"
  by (induction ms) (auto split: sum.splits)


lemma try_models_None:
  "try_models w p a ms = (None, tr) \<Longrightarrow>
   (\<forall>m\<in>set ms. isl (attempt_model w p a m)) \<and> tr = map (Request p a) ms"
  by (induction ms arbitrary: tr) (auto split: sum.splits prod.splits)

lemma try_models_Some:
  "try_models w p a ms = (Some r, tr) \<Longrightarrow>
   \<exists>pre m post. ms = pre @ m # post \<and> (\<forall>m'\<in>set pre. isl (attempt_model w p a m'))
     \<and> attempt_model w p a m = Inr r \<and> tr = map (Request p a) (pre @ [m])"
proof (induction ms arbitrary: tr)
  case Nil
  then show ?case by simp
next
  case (Cons x ms)
  show ?case
  proof (cases "attempt_model w p a x")
    case (Inr r')
    with Cons.prems have "r' = r" "tr = [Request p a x]" by auto
    with Inr have "x # ms = [] @ x # ms \<and> (\<forall>m'\<in>set []. isl (attempt_model w p a m'))
        \<and> attempt_model w p a x = Inr r \<and> tr = map (Request p a) ([] @ [x])"
      by simp
    then show ?thesis by blast
  next
    case (Inl e)
    with Cons.prems obtain tr' where t: "try_models w p a ms = (Some r, tr')"
      and tr: "tr = Request p a x # tr'"
      by (auto split: prod.splits)
    from Cons.IH [OF t] obtain pre m post where
      "ms = pre @ m # post" "\<forall>m'\<in>set pre. isl (attempt_model w p a m')"
      "attempt_model w p a m = Inr r" "tr' = map (Request p a) (pre @ [m])"
      by blast
    with Inl tr have "x # ms = (x # pre) @ m # post
        \<and> (\<forall>m'\<in>set (x # pre). isl (attempt_model w p a m'))
        \<and> attempt_model w p a m = Inr r \<and> tr = map (Request p a) ((x # pre) @ [m])"
      by simp
    then show ?thesis by blast
  qed
qed

subsection \<open>The loop over the rounds\<close>

lemma backoff_eq:
  "(if int a < R - 1 then [Sleep (of_nat ((a + 1) * 2))] else [])
   = (if int a + 1 < R then [Sleep (of_nat (2 * (a + 1)))] else [])"
  by (simp add: mult.commute)

lemma round_step:
  "map (Request p a) models_to_try
   @ (if int a < R - 1 then [Sleep (of_nat ((a + 1) * 2))] else []) @ rest
   = round_trace p R a @ rest"
  unfolding round_trace_def backoff_eq by simp

lemma failed_round:
  "\<forall>m\<in>set models_to_try. isl (attempt_model w p a m) \<Longrightarrow>
   try_models w p a models_to_try = (None, map (Request p a) models_to_try)"
  by (rule try_models_all_fail)

lemma retry_rounds_all_fail:
  "\<forall>a\<in>set as. \<forall>m\<in>set models_to_try. isl (attempt_model w p a m) \<Longrightarrow>
   retry_rounds w p R as = (None, concat (map (round_trace p R) as))"
proof (induction as)
  case Nil
  then show ?case by simp
next
  case (Cons a as)
  then have "try_models w p a models_to_try = (None, map (Request p a) models_to_try)"
    by (simp add: failed_round)
  moreover from Cons have "retry_rounds w p R as = (None, concat (map (round_trace p R) as))"
    by simp
  ultimately show ?case
    by (simp add: round_step del: of_nat_mult of_nat_add)
qed


lemma retry_rounds_None:
  "retry_rounds w p R as = (None, tr) \<Longrightarrow>
   (\<forall>a\<in>set as. \<forall>m\<in>set models_to_try. isl (attempt_model w p a m))
   \<and> tr = concat (map (round_trace p R) as)"
proof (induction as arbitrary: tr)
  case Nil
  then show ?case by simp
next
  case (Cons a as)
  obtain res t where t: "try_models w p a models_to_try = (res, t)"
    by (cases "try_models w p a models_to_try") auto
  with Cons.prems have res: "res = None"
    by (cases res) auto
  obtain res' t' where r: "retry_rounds w p R as = (res', t')"
    by (cases "retry_rounds w p R as") auto
  with Cons.prems t res have res': "res' = None"
    and tr: "tr = t @ (if int a < R - 1 then [Sleep (of_nat ((a + 1) * 2))] else []) @ t'"
    by auto
  from try_models_None [OF t [unfolded res]] Cons.IH [OF r [unfolded res']] tr
  show ?case
    by (simp add: round_step del: of_nat_mult of_nat_add)
qed

lemma retry_rounds_Some:
  "retry_rounds w p R as = (Some r, tr) \<Longrightarrow>
   \<exists>as1 a as2 pre m post. as = as1 @ a # as2
     \<and> (\<forall>a'\<in>set as1. \<forall>m'\<in>set models_to_try. isl (attempt_model w p a' m'))
     \<and> models_to_try = pre @ m # post \<and> (\<forall>m'\<in>set pre. isl (attempt_model w p a m'))
     \<and> attempt_model w p a m = Inr r
     \<and> tr = concat (map (round_trace p R) as1) @ map (Request p a) (pre @ [m])"
proof (induction as arbitrary: tr)
  case Nil
  then show ?case by simp
next
  case (Cons a as)
  obtain res t where t: "try_models w p a models_to_try = (res, t)"
    by (cases "try_models w p a models_to_try") auto
  show ?case
  proof (cases res)
    case (Some r')
    with Cons.prems t have "r' = r" "tr = t" by auto
    with t Some have "try_models w p a models_to_try = (Some r, tr)" by simp
    from try_models_Some [OF this] obtain pre m post where
      "models_to_try = pre @ m # post" "\<forall>m'\<in>set pre. isl (attempt_model w p a m')"
      "attempt_model w p a m = Inr r" "tr = map (Request p a) (pre @ [m])"
      by blast
    then have "a # as = [] @ a # as
        \<and> (\<forall>a'\<in>set []. \<forall>m'\<in>set models_to_try. isl (attempt_model w p a' m'))
        \<and> models_to_try = pre @ m # post \<and> (\<forall>m'\<in>set pre. isl (attempt_model w p a m'))
        \<and> attempt_model w p a m = Inr r
        \<and> tr = concat (map (round_trace p R) []) @ map (Request p a) (pre @ [m])"
      by simp
    then show ?thesis by blast
  next
    case None
    obtain res' t' where r: "retry_rounds w p R as = (res', t')"
      by (cases "retry_rounds w p R as") auto
    with Cons.prems t None have res': "res' = Some r"
      and tr: "tr = t @ (if int a < R - 1 then [Sleep (of_nat ((a + 1) * 2))] else []) @ t'"
      by auto
    from try_models_None [OF t [unfolded None]]
    have fail: "\<forall>m\<in>set models_to_try. isl (attempt_model w p a m)"
      and t_eq: "t = map (Request p a) models_to_try"
      by simp_all
    from Cons.IH [OF r [unfolded res']] obtain as1 b as2 pre m post where
      ih: "as = as1 @ b # as2"
      "\<forall>a'\<in>set as1. \<forall>m'\<in>set models_to_try. isl (attempt_model w p a' m')"
      "models_to_try = pre @ m # post" "\<forall>m'\<in>set pre. isl (attempt_model w p b m')"
      "attempt_model w p b m = Inr r"
      "t' = concat (map (round_trace p R) as1) @ map (Request p b) (pre @ [m])"
      by blast
    have "tr = concat (map (round_trace p R) (a # as1)) @ map (Request p b) (pre @ [m])"
      using tr t_eq ih(6)
      by (simp add: round_step del: of_nat_mult of_nat_add)
    with ih fail have "a # as = (a # as1) @ b # as2
        \<and> (\<forall>a'\<in>set (a # as1). \<forall>m'\<in>set models_to_try. isl (attempt_model w p a' m'))
        \<and> models_to_try = pre @ m # post \<and> (\<forall>m'\<in>set pre. isl (attempt_model w p b m'))
        \<and> attempt_model w p b m = Inr r
        \<and> tr = concat (map (round_trace p R) (a # as1)) @ map (Request p b) (pre @ [m])"
      by simp
    then show ?thesis by blast
  qed
qed

subsection \<open>Records\<close>

lemma failure_record_get:
  "dict_get (failure_record w p e) ''model_used'' = Some (JStr ''none'')"
  "dict_get (failure_record w p e) ''analysis_success'' = Some (JBool False)"
  "dict_get (failure_record w p e) ''error'' = Some (JStr (str_error e))"
  "dict_get (failure_record w p e) ''depth_cm_estimate'' = Some JNull"
  "dict_get (failure_record w p e) ''depth_range'' = Some (JStr ''unknown'')"
  "dict_get (failure_record w p e) ''passability'' = Some (JStr ''unknown'')"
  "dict_get (failure_record w p e) ''justification''
     = Some (JStr (ANALYSIS_FAILED_PREFIX @ str_error e))"
  by (simp_all add: failure_record_def dict_get_def)

lemma success_record_get:
  assumes "distinct (map fst d)"
  shows "dict_get (success_record w p m d) k =
     (case dict_get d k of
        Some v \<Rightarrow> Some v
      | None \<Rightarrow>
          dict_get
            [(''filename'', JStr (path_name p)), (''filepath'', JStr p),
             (''timestamp'', JStr (datetime_now w p)), (''model_used'', JStr m),
             (''analysis_success'', JBool True)] k)"
  unfolding success_record_def by (rule dict_get_dict_update [OF assms])

lemma dict_get_None: "dict_get d k = None \<longleftrightarrow> k \<notin> set (map fst d)"
  by (simp add: dict_get_def map_of_eq_None_iff)

subsection \<open>The outcome of \<^verbatim>\<open>analyze_image\<close>\<close>

lemma analyze_image_try_cases:
  assumes "analyze_image_try w p R = (res, tr)"
  shows "(\<exists>msg. read_bytes w p = Inl msg \<and> res = Inl (EncodeFailed msg) \<and> tr = [])
       \<or> (\<exists>bytes msg. read_bytes w p = Inr bytes \<and> fewshot_error w p = Some msg
            \<and> res = Inl (PrepareFailed msg) \<and> tr = [])
       \<or> (\<exists>bytes. read_bytes w p = Inr bytes \<and> fewshot_error w p = None
            \<and> res = Inl AllFailed \<and> retry_rounds w p R [0..<nat R] = (None, tr))
       \<or> (\<exists>bytes r. read_bytes w p = Inr bytes \<and> fewshot_error w p = None \<and> res = Inr r
            \<and> retry_rounds w p R [0..<nat R] = (Some r, tr))"
  using assms
  by (auto simp: analyze_image_try_def encode_image_def split: sum.splits prod.splits option.splits)

lemma analyze_image_success:
  assumes "analyze_image_try w p R = (Inr r, tr)"
  shows "\<exists>a pre m post d. a < nat R \<and> models_to_try = pre @ m # post
     \<and> (\<forall>a'<a. \<forall>m'\<in>set models_to_try. isl (attempt_model w p a' m'))
     \<and> (\<forall>m'\<in>set pre. isl (attempt_model w p a m'))
     \<and> decoded_reply w p a m = Some (JObj d) \<and> r = success_record w p m d
     \<and> tr = concat (map (round_trace p R) [0..<a]) @ map (Request p a) (pre @ [m])"
proof -
  from analyze_image_try_cases [OF assms]
  have "retry_rounds w p R [0..<nat R] = (Some r, tr)" by auto
  from retry_rounds_Some [OF this] obtain as1 a as2 pre m post where
    as: "[0..<nat R] = as1 @ a # as2"
    and f1: "\<forall>a'\<in>set as1. \<forall>m'\<in>set models_to_try. isl (attempt_model w p a' m')"
    and ms: "models_to_try = pre @ m # post"
    and f2: "\<forall>m'\<in>set pre. isl (attempt_model w p a m')"
    and ok: "attempt_model w p a m = Inr r"
    and tr: "tr = concat (map (round_trace p R) as1) @ map (Request p a) (pre @ [m])"
    by blast
  have "a \<in> set [0..<nat R]" by (simp add: as)
  then have a: "a < nat R" by simp
  have len: "length as1 = a"
  proof -
    have "[0..<nat R] ! length as1 = a" by (simp add: as)
    moreover have "length as1 < length [0..<nat R]" by (simp add: as)
    ultimately show ?thesis by simp
  qed
  have "as1 = take a [0..<nat R]" by (simp add: as len)
  with a have as1: "as1 = [0..<a]" by (simp add: take_upt)
  from ok obtain d where d: "decoded_reply w p a m = Some (JObj d)" "r = success_record w p m d"
    by (auto simp: attempt_model_Inr)
  from a ms f1 f2 d tr as1 show ?thesis
    by (intro exI [of _ a] exI [of _ pre] exI [of _ m] exI [of _ post] exI [of _ d]) simp
qed

lemma analyze_image_outcome:
  "(\<exists>r tr. analyze_image_try w p R = (Inr r, tr) \<and> analyze_image w p R = (r, tr))
   \<or> (\<exists>e tr. analyze_image_try w p R = (Inl e, tr)
         \<and> analyze_image w p R = (failure_record w p e, tr))"
  by (cases "analyze_image_try w p R") (auto simp: analyze_image_def split: sum.splits)

subsection \<open>The first reply that gives an object ends the loop\<close>


lemma good_reply_parses: "parse_json_response good_reply = Inr (JObj good_data)"
  by code_simp

lemma good_reply_nonempty: "good_reply \<noteq> []"
  by code_simp



subsection \<open>Exhaustion\<close>

lemma never_skipped:
  assumes "analyze_image_try w p R = (res, tr)"
    and "Request p a ''gpt-4o'' \<in> set tr"
    and "isl (attempt_model w p a ''gpt-4o'')"
  shows "Request p a ''gpt-4o-mini'' \<in> set tr"
proof -
  have in_round: "Request p a ''gpt-4o-mini'' \<in> set (round_trace p R a)" for a
    by (simp add: round_trace_def models_to_try_def)
  have in_rounds: "Request p a ''gpt-4o-mini'' \<in> set (concat (map (round_trace p R) as))"
    if "Request p a ''gpt-4o'' \<in> set (concat (map (round_trace p R) as))" for as
  proof -
    from that obtain b where "b \<in> set as" "Request p a ''gpt-4o'' \<in> set (round_trace p R b)"
      by auto
    then have "b \<in> set as" "a = b"
      by (auto simp: round_trace_def split: if_splits)
    with in_round [of a] show ?thesis by auto
  qed
  from analyze_image_try_cases [OF assms(1)] consider
    (enc) "tr = []"
    | (none) "retry_rounds w p R [0..<nat R] = (None, tr)"
    | (some) r where "retry_rounds w p R [0..<nat R] = (Some r, tr)"
    by blast
  then show ?thesis
  proof cases
    case enc
    with assms(2) show ?thesis by simp
  next
    case none
    from retry_rounds_None [OF this] have t: "tr = concat (map (round_trace p R) [0..<nat R])"
      by simp
    from assms(2) have "Request p a ''gpt-4o'' \<in> set (concat (map (round_trace p R) [0..<nat R]))"
      unfolding t .
    then have "Request p a ''gpt-4o-mini'' \<in> set (concat (map (round_trace p R) [0..<nat R]))"
      by (rule in_rounds)
    then show ?thesis unfolding t .
  next
    case some
    from retry_rounds_Some [OF this] obtain as1 b as2 pre m post where
      ms: "models_to_try = pre @ m # post"
      and ok: "attempt_model w p b m = Inr r"
      and tr: "tr = concat (map (round_trace p R) as1) @ map (Request p b) (pre @ [m])"
      by blast
    from assms(2) tr consider
      (early) "Request p a ''gpt-4o'' \<in> set (concat (map (round_trace p R) as1))"
      | (last) "a = b" "''gpt-4o'' \<in> set (pre @ [m])"
      by auto
    then show ?thesis
    proof cases
      case early
      from in_rounds [OF early] show ?thesis
        unfolding tr by simp
    next
      case last
      from ok assms(3) last(1) have "m \<noteq> ''gpt-4o''" by auto
      with last(2) have "''gpt-4o'' \<in> set pre" by simp
      then obtain x xs where pre: "pre = x # xs" by (cases pre) auto
      with ms have "xs = [] \<and> m = ''gpt-4o-mini''"
        by (cases xs) (auto simp: models_to_try_def)
      with tr last(1) show ?thesis by simp
    qed
  qed
qed

text \<open>
  C7. When the body of \<^verbatim>\<open>analyze_image\<close> ends with the exception raised after the last
  round, the trace is exactly the \<open>R\<close> rounds in order, \<open>R\<close> the value of \<^verbatim>\<open>max_retries\<close>:
  in each round one request per model of the list, every one of them failed, and after
  round \<open>r\<close> (counted from 1) with \<open>r < R\<close> a pause of \<open>2 r\<close>. In any run, whatever its
  outcome, a request to the first model that fails is followed by the request to the
  second model in the same round.
\<close>

theorem exhausted_after_all_rounds:
  assumes "analyze_image_try w p R = (res, tr)"
  shows "(res = Inl AllFailed \<longrightarrow>
            tr = concat (map (round_trace p R) [0..<nat R])
            \<and> (\<forall>a<nat R. \<forall>m\<in>set models_to_try.
                  Request p a m \<in> set tr \<and> isl (attempt_model w p a m))
            \<and> (\<forall>a. int a + 1 < R \<longrightarrow> Sleep (of_nat (2 * (a + 1))) \<in> set tr))
         \<and> (\<forall>a. Request p a ''gpt-4o'' \<in> set tr \<and> isl (attempt_model w p a ''gpt-4o'')
              \<longrightarrow> Request p a ''gpt-4o-mini'' \<in> set tr)"
proof -
  have failed: "tr = concat (map (round_trace p R) [0..<nat R])
      \<and> (\<forall>a<nat R. \<forall>m\<in>set models_to_try.
            Request p a m \<in> set tr \<and> isl (attempt_model w p a m))
      \<and> (\<forall>a. int a + 1 < R \<longrightarrow> Sleep (of_nat (2 * (a + 1))) \<in> set tr)"
    if res: "res = Inl AllFailed"
  proof -
    from res analyze_image_try_cases [OF assms]
    have "retry_rounds w p R [0..<nat R] = (None, tr)" by auto
    from retry_rounds_None [OF this]
    have fail: "\<forall>a\<in>set [0..<nat R]. \<forall>m\<in>set models_to_try. isl (attempt_model w p a m)"
      and tr: "tr = concat (map (round_trace p R) [0..<nat R])"
      by simp_all
    have req: "Request p a m \<in> set tr \<and> isl (attempt_model w p a m)"
      if a: "a < nat R" and m: "m \<in> set models_to_try" for a m
    proof -
      from m have "Request p a m \<in> set (round_trace p R a)"
        by (simp add: round_trace_def)
      with a have "Request p a m \<in> set tr"
        unfolding tr by auto
      with fail a m show ?thesis by simp
    qed
    have pause: "Sleep (of_nat (2 * (a + 1))) \<in> set tr" if "int a + 1 < R" for a
    proof -
      from that have "a < nat R" "Sleep (of_nat (2 * (a + 1))) \<in> set (round_trace p R a)"
        by (auto simp: round_trace_def)
      then show ?thesis
        unfolding tr by auto
    qed
    from tr req pause show ?thesis by blast
  qed
  have "Request p a ''gpt-4o-mini'' \<in> set tr"
    if "Request p a ''gpt-4o'' \<in> set tr \<and> isl (attempt_model w p a ''gpt-4o'')" for a
    using never_skipped [OF assms] that by blast
  with failed show ?thesis by blast
qed

text \<open>C7, at a run of three rounds in which every request raises.\<close>

theorem exhausted_after_all_rounds_witness:
  "analyze_image_try quiet_world ''imgs/1.jpg'' 3
     = (Inl AllFailed,
        [Request ''imgs/1.jpg'' 0 ''gpt-4o'', Request ''imgs/1.jpg'' 0 ''gpt-4o-mini'', Sleep 2,
         Request ''imgs/1.jpg'' 1 ''gpt-4o'', Request ''imgs/1.jpg'' 1 ''gpt-4o-mini'', Sleep 4,
         Request ''imgs/1.jpg'' 2 ''gpt-4o'', Request ''imgs/1.jpg'' 2 ''gpt-4o-mini''])
   \<and> [Request ''imgs/1.jpg'' 0 ''gpt-4o'', Request ''imgs/1.jpg'' 0 ''gpt-4o-mini'', Sleep 2,
        Request ''imgs/1.jpg'' 1 ''gpt-4o'', Request ''imgs/1.jpg'' 1 ''gpt-4o-mini'', Sleep 4,
        Request ''imgs/1.jpg'' 2 ''gpt-4o'', Request ''imgs/1.jpg'' 2 ''gpt-4o-mini'']
     = concat (map (round_trace ''imgs/1.jpg'' 3) [0..<nat 3])
   \<and> isl (attempt_model quiet_world ''imgs/1.jpg'' 0 ''gpt-4o'')"
proof -
  have run: "analyze_image_try quiet_world ''imgs/1.jpg'' 3
     = (Inl AllFailed,
        [Request ''imgs/1.jpg'' 0 ''gpt-4o'', Request ''imgs/1.jpg'' 0 ''gpt-4o-mini'', Sleep 2,
         Request ''imgs/1.jpg'' 1 ''gpt-4o'', Request ''imgs/1.jpg'' 1 ''gpt-4o-mini'', Sleep 4,
         Request ''imgs/1.jpg'' 2 ''gpt-4o'', Request ''imgs/1.jpg'' 2 ''gpt-4o-mini''])"
    by code_simp
  have isl: "isl (attempt_model quiet_world ''imgs/1.jpg'' 0 ''gpt-4o'')"
    by code_simp
  from exhausted_after_all_rounds [OF run]
  have "[Request ''imgs/1.jpg'' 0 ''gpt-4o'', Request ''imgs/1.jpg'' 0 ''gpt-4o-mini'', Sleep 2,
         Request ''imgs/1.jpg'' 1 ''gpt-4o'', Request ''imgs/1.jpg'' 1 ''gpt-4o-mini'', Sleep 4,
         Request ''imgs/1.jpg'' 2 ''gpt-4o'', Request ''imgs/1.jpg'' 2 ''gpt-4o-mini'']
      = concat (map (round_trace ''imgs/1.jpg'' 3) [0..<nat 3])"
    by blast
  with run isl show ?thesis by blast
qed

subsection \<open>The fields of a record\<close>

lemma schema_fields:
  assumes "response_schema (JObj d)" and "distinct (map fst d)"
  shows "dict_get (success_record w p m d) ''error'' = None"
    and "\<exists>s. dict_get (success_record w p m d) ''depth_range'' = Some (JStr s)"
    and "\<exists>s\<in>set PASSABILITY_ENUM. dict_get (success_record w p m d) ''passability'' = Some (JStr s)"
proof -
  from assms(1) have keys: "set (map fst d) = set REQUIRED_FIELDS"
    and range: "case dict_get d ''depth_range'' of Some x \<Rightarrow> is_string x | None \<Rightarrow> False"
    and pass: "case dict_get d ''passability'' of
        Some (JStr s) \<Rightarrow> s \<in> set PASSABILITY_ENUM | _ \<Rightarrow> False"
    by (simp_all add: response_schema_def)
  from keys have "''error'' \<notin> set (map fst d)"
    by (simp add: REQUIRED_FIELDS_def)
  then have "dict_get d ''error'' = None"
    by (simp add: dict_get_None)
  then show "dict_get (success_record w p m d) ''error'' = None"
    unfolding success_record_get [OF assms(2)] by (simp add: dict_get_def)
  from range obtain s where "dict_get d ''depth_range'' = Some (JStr s)"
    by (auto simp: is_string_def split: option.splits json.splits)
  then show "\<exists>s. dict_get (success_record w p m d) ''depth_range'' = Some (JStr s)"
    unfolding success_record_get [OF assms(2)] by simp
  from pass obtain s where "dict_get d ''passability'' = Some (JStr s)" "s \<in> set PASSABILITY_ENUM"
    by (auto split: option.splits json.splits)
  then show "\<exists>s\<in>set PASSABILITY_ENUM.
      dict_get (success_record w p m d) ''passability'' = Some (JStr s)"
    unfolding success_record_get [OF assms(2)] by simp
qed

text \<open>
  C2, as amended. A record produced by \<^verbatim>\<open>analyze_image\<close> with \<^verbatim>\<open>analysis_success\<close> true
  is the record of a success: the five fields \<^verbatim>\<open>filename\<close>, \<^verbatim>\<open>filepath\<close>, \<^verbatim>\<open>timestamp\<close>,
  \<^verbatim>\<open>model_used\<close>, \<^verbatim>\<open>analysis_success\<close> updated with the object decoded from the reply to one
  request. When that object conforms to \<^verbatim>\<open>response_schema\<close>, the record has no \<^verbatim>\<open>error\<close>
  field, its \<^verbatim>\<open>depth_range\<close> is a string (the schema fixes no band) and its
  \<^verbatim>\<open>passability\<close> is one of \<^verbatim>\<open>pass\<close>, \<^verbatim>\<open>caution\<close>, \<^verbatim>\<open>unsafe\<close>, \<^verbatim>\<open>unknown\<close>.
\<close>

theorem success_record_fields:
  assumes "analyze_image w p R = (result, tr)"
    and "dict_get result ''analysis_success'' = Some (JBool True)"
  shows "\<exists>a m d. a < nat R \<and> m \<in> set models_to_try
           \<and> decoded_reply w p a m = Some (JObj d) \<and> result = success_record w p m d
           \<and> (response_schema (JObj d) \<longrightarrow>
                dict_get result ''error'' = None
                \<and> (\<exists>s. dict_get result ''depth_range'' = Some (JStr s))
                \<and> (\<exists>s\<in>set PASSABILITY_ENUM. dict_get result ''passability'' = Some (JStr s)))"
proof -
  from analyze_image_outcome [of w p R] assms have "analyze_image_try w p R = (Inr result, tr)"
    by (auto simp: failure_record_get)
  from analyze_image_success [OF this] obtain a pre m post d where
    a: "a < nat R" and ms: "models_to_try = pre @ m # post"
    and d: "decoded_reply w p a m = Some (JObj d)" and r: "result = success_record w p m d"
    by blast
  have m: "m \<in> set models_to_try"
    unfolding ms by simp
  have dist: "distinct (map fst d)"
    using d by (rule decoded_reply_distinct)
  have "response_schema (JObj d) \<longrightarrow>
      dict_get result ''error'' = None
      \<and> (\<exists>s. dict_get result ''depth_range'' = Some (JStr s))
      \<and> (\<exists>s\<in>set PASSABILITY_ENUM. dict_get result ''passability'' = Some (JStr s))"
    unfolding r using schema_fields [OF _ dist] by blast
  with a m d r show ?thesis by blast
qed

text \<open>
  C2 as stated fails. A reply that conforms to \<^verbatim>\<open>response_schema\<close> with the depth range
  \<^verbatim>\<open>deep\<close> and the passability \<^verbatim>\<open>unknown\<close> gives a record of a success with a depth range
  outside the bands and a passability outside \<^verbatim>\<open>pass\<close>, \<^verbatim>\<open>caution\<close>, \<^verbatim>\<open>unsafe\<close>. A reply
  with an \<^verbatim>\<open>error\<close> field gives a record of a success that has the \<^verbatim>\<open>error\<close> field.
\<close>

theorem success_record_bands_counterexample:
  "decoded_reply (reply_world loose_reply) ''imgs/1.jpg'' 0 ''gpt-4o'' = Some (JObj loose_data)
   \<and> response_schema (JObj loose_data)
   \<and> fst (analyze_image (reply_world loose_reply) ''imgs/1.jpg'' 3)
     = [(''filename'', JStr ''1.jpg''), (''filepath'', JStr ''imgs/1.jpg''),
        (''timestamp'', JStr ''2025-01-01T00:00:00''), (''model_used'', JStr ''gpt-4o''),
        (''analysis_success'', JBool True), (''depth_cm_estimate'', JInt 7),
        (''depth_range'', JStr ''deep''), (''passability'', JStr ''unknown''),
        (''justification'', JStr ''murky'')]
   \<and> ''deep'' \<notin> set DEPTH_BANDS
   \<and> ''unknown'' \<notin> set [''pass'', ''caution'', ''unsafe'']
   \<and> dict_get (fst (analyze_image (reply_world error_reply) ''imgs/1.jpg'' 3))
        ''analysis_success'' = Some (JBool True)
   \<and> dict_get (fst (analyze_image (reply_world error_reply) ''imgs/1.jpg'' 3)) ''error''
     = Some (JStr ''x'')"
  by code_simp

text \<open>C2, as amended, at a run answered with a conforming object.\<close>

theorem success_record_fields_witness:
  "dict_get (fst (analyze_image (reply_world good_reply) ''imgs/1.jpg'' 3)) ''analysis_success''
     = Some (JBool True)
   \<and> (\<exists>a m d. a < nat 3 \<and> m \<in> set models_to_try
         \<and> decoded_reply (reply_world good_reply) ''imgs/1.jpg'' a m = Some (JObj d)
         \<and> response_schema (JObj d)
         \<and> dict_get (fst (analyze_image (reply_world good_reply) ''imgs/1.jpg'' 3)) ''error''
             = None
         \<and> (\<exists>s. dict_get (fst (analyze_image (reply_world good_reply) ''imgs/1.jpg'' 3))
                 ''depth_range'' = Some (JStr s))
         \<and> (\<exists>s\<in>set PASSABILITY_ENUM.
               dict_get (fst (analyze_image (reply_world good_reply) ''imgs/1.jpg'' 3))
                 ''passability'' = Some (JStr s)))"
proof -
  let ?w = "reply_world good_reply"
  obtain result tr where run: "analyze_image ?w ''imgs/1.jpg'' 3 = (result, tr)"
    by (cases "analyze_image ?w ''imgs/1.jpg'' 3") auto
  have "dict_get (fst (analyze_image ?w ''imgs/1.jpg'' 3)) ''analysis_success''
      = Some (JBool True)"
    by code_simp
  with run have flag: "dict_get result ''analysis_success'' = Some (JBool True)"
    by simp
  have reply: "decoded_reply ?w p a m = Some (JObj good_data)" for p a m
    by (simp add: decoded_reply_def reply_world_def quiet_world_def good_reply_parses
        good_reply_nonempty)
  have schema: "response_schema (JObj good_data)"
    by code_simp
  from success_record_fields [OF run flag] obtain a m d where
    "a < nat 3" "m \<in> set models_to_try" "decoded_reply ?w ''imgs/1.jpg'' a m = Some (JObj d)"
    "response_schema (JObj d) \<longrightarrow>
       dict_get result ''error'' = None
       \<and> (\<exists>s. dict_get result ''depth_range'' = Some (JStr s))
       \<and> (\<exists>s\<in>set PASSABILITY_ENUM. dict_get result ''passability'' = Some (JStr s))"
    by blast
  moreover from this reply schema have "response_schema (JObj d)"
    by simp
  ultimately show ?thesis
    using flag run by (simp only: fst_conv) blast
qed

text \<open>
  C4, as amended. When no reply decodes to an object with a key \<^verbatim>\<open>analysis_success\<close> of
  its own (\<^verbatim>\<open>response_schema\<close> allows no such key), every record produced by
  \<^verbatim>\<open>analyze_image\<close> with \<^verbatim>\<open>analysis_success\<close> false has \<^verbatim>\<open>depth_cm_estimate\<close> null and
  \<^verbatim>\<open>depth_range\<close> and \<^verbatim>\<open>passability\<close> equal to \<^verbatim>\<open>unknown\<close>.
\<close>

theorem failure_record_unknown:
  assumes "analyze_image w p R = (result, tr)"
    and "dict_get result ''analysis_success'' = Some (JBool False)"
    and "\<forall>a m d. decoded_reply w p a m = Some (JObj d) \<longrightarrow> dict_get d ''analysis_success'' = None"
  shows "dict_get result ''depth_cm_estimate'' = Some JNull
         \<and> dict_get result ''depth_range'' = Some (JStr ''unknown'')
         \<and> dict_get result ''passability'' = Some (JStr ''unknown'')"
proof -
  from analyze_image_outcome [of w p R] assms(1) consider
    (ok) "analyze_image_try w p R = (Inr result, tr)"
    | (failed) e where "result = failure_record w p e"
    by auto
  then show ?thesis
  proof cases
    case ok
    from analyze_image_success [OF this] obtain a m d where
      d: "decoded_reply w p a m = Some (JObj d)" and r: "result = success_record w p m d"
      by blast
    from d assms(3) have none: "dict_get d ''analysis_success'' = None" by blast
    have dist: "distinct (map fst d)"
      using d by (rule decoded_reply_distinct)
    have "dict_get result ''analysis_success'' = Some (JBool True)"
      unfolding r success_record_get [OF dist] none by (simp add: dict_get_def)
    with assms(2) show ?thesis by simp
  next
    case failed
    then show ?thesis by (simp add: failure_record_get)
  qed
qed

text \<open>C4, as amended, at a run whose image cannot be read while the replies conform.\<close>

theorem failure_record_unknown_witness:
  "dict_get (fst (analyze_image unread_reply_world ''imgs/1.jpg'' 3)) ''analysis_success''
     = Some (JBool False)
   \<and> decoded_reply unread_reply_world ''imgs/1.jpg'' 0 ''gpt-4o'' = Some (JObj good_data)
   \<and> dict_get good_data ''analysis_success'' = None
   \<and> dict_get (fst (analyze_image unread_reply_world ''imgs/1.jpg'' 3)) ''depth_cm_estimate''
     = Some JNull
   \<and> dict_get (fst (analyze_image unread_reply_world ''imgs/1.jpg'' 3)) ''depth_range''
     = Some (JStr ''unknown'')
   \<and> dict_get (fst (analyze_image unread_reply_world ''imgs/1.jpg'' 3)) ''passability''
     = Some (JStr ''unknown'')"
proof -
  let ?w = unread_reply_world
  obtain result tr where run: "analyze_image ?w ''imgs/1.jpg'' 3 = (result, tr)"
    by (cases "analyze_image ?w ''imgs/1.jpg'' 3") auto
  have "dict_get (fst (analyze_image ?w ''imgs/1.jpg'' 3)) ''analysis_success''
      = Some (JBool False)"
    by code_simp
  with run have flag: "dict_get result ''analysis_success'' = Some (JBool False)"
    by simp
  have reply: "decoded_reply ?w p a m = Some (JObj good_data)" for p a m
    by (simp add: decoded_reply_def unread_reply_world_def reply_world_def quiet_world_def
        good_reply_parses good_reply_nonempty)
  have key: "dict_get good_data ''analysis_success'' = None"
    by code_simp
  have none: "\<forall>a m d. decoded_reply ?w ''imgs/1.jpg'' a m = Some (JObj d)
      \<longrightarrow> dict_get d ''analysis_success'' = None"
    by (simp add: reply key)
  from failure_record_unknown [OF run flag none] flag run reply key show ?thesis
    by simp
qed

text \<open>
  C4 as stated fails. The reply \<^verbatim>\<open>{"analysis_success": false}\<close> parses to an object; the
  record is the five fields of a success with \<^verbatim>\<open>analysis_success\<close> overwritten by false,
  and it has none of the fields \<^verbatim>\<open>depth_cm_estimate\<close>, \<^verbatim>\<open>depth_range\<close>, \<^verbatim>\<open>passability\<close>.
\<close>

theorem failure_record_unknown_counterexample:
  "fst (analyze_image (reply_world flag_reply) ''imgs/1.jpg'' 3)
     = [(''filename'', JStr ''1.jpg''), (''filepath'', JStr ''imgs/1.jpg''),
        (''timestamp'', JStr ''2025-01-01T00:00:00''), (''model_used'', JStr ''gpt-4o''),
        (''analysis_success'', JBool False)]
   \<and> dict_get (fst (analyze_image (reply_world flag_reply) ''imgs/1.jpg'' 3))
        ''analysis_success'' = Some (JBool False)
   \<and> dict_get (fst (analyze_image (reply_world flag_reply) ''imgs/1.jpg'' 3))
        ''depth_cm_estimate'' \<noteq> Some JNull
   \<and> dict_get (fst (analyze_image (reply_world flag_reply) ''imgs/1.jpg'' 3)) ''depth_range''
       \<noteq> Some (JStr ''unknown'')
   \<and> dict_get (fst (analyze_image (reply_world flag_reply) ''imgs/1.jpg'' 3)) ''passability''
       \<noteq> Some (JStr ''unknown'')"
  by code_simp

text \<open>
  C10. Whenever the body of \<^verbatim>\<open>analyze_image\<close> raises an exception \<open>e\<close>, the record returned
  has \<^verbatim>\<open>model_used\<close> equal to \<^verbatim>\<open>none\<close>, \<^verbatim>\<open>analysis_success\<close> false, \<^verbatim>\<open>error\<close> equal to
  \<^verbatim>\<open>str(e)\<close>, a \<^verbatim>\<open>justification\<close> that is not empty and ends with \<^verbatim>\<open>str(e)\<close>,
  \<^verbatim>\<open>depth_cm_estimate\<close> null and \<^verbatim>\<open>depth_range\<close> and \<^verbatim>\<open>passability\<close> equal to \<^verbatim>\<open>unknown\<close>.
  The exception is the failure to encode the image or an error while the messages are
  prepared, both raised before any request is sent, or the exhaustion of all models and
  rounds.
\<close>

theorem failure_record_shape:
  assumes "analyze_image_try w p R = (Inl e, tr)"
  shows "(\<exists>result. analyze_image w p R = (result, tr)
            \<and> dict_get result ''model_used'' = Some (JStr ''none'')
            \<and> dict_get result ''analysis_success'' = Some (JBool False)
            \<and> dict_get result ''error'' = Some (JStr (str_error e))
            \<and> (\<exists>j pre. dict_get result ''justification'' = Some (JStr j)
                  \<and> j = pre @ str_error e \<and> j \<noteq> [])
            \<and> dict_get result ''depth_cm_estimate'' = Some JNull
            \<and> dict_get result ''depth_range'' = Some (JStr ''unknown'')
            \<and> dict_get result ''passability'' = Some (JStr ''unknown''))
         \<and> ((\<exists>msg. read_bytes w p = Inl msg \<and> e = EncodeFailed msg \<and> tr = [])
              \<or> (\<exists>msg. fewshot_error w p = Some msg \<and> e = PrepareFailed msg \<and> tr = [])
              \<or> (\<exists>bytes. read_bytes w p = Inr bytes \<and> e = AllFailed))"
proof -
  have run: "analyze_image w p R = (failure_record w p e, tr)"
    using assms by (simp add: analyze_image_def)
  have "ANALYSIS_FAILED_PREFIX @ str_error e \<noteq> []"
    by (simp add: ANALYSIS_FAILED_PREFIX_def)
  then have "\<exists>j pre. dict_get (failure_record w p e) ''justification'' = Some (JStr j)
      \<and> j = pre @ str_error e \<and> j \<noteq> []"
    by (simp add: failure_record_get)
  with run have shape: "\<exists>result. analyze_image w p R = (result, tr)
      \<and> dict_get result ''model_used'' = Some (JStr ''none'')
      \<and> dict_get result ''analysis_success'' = Some (JBool False)
      \<and> dict_get result ''error'' = Some (JStr (str_error e))
      \<and> (\<exists>j pre. dict_get result ''justification'' = Some (JStr j)
            \<and> j = pre @ str_error e \<and> j \<noteq> [])
      \<and> dict_get result ''depth_cm_estimate'' = Some JNull
      \<and> dict_get result ''depth_range'' = Some (JStr ''unknown'')
      \<and> dict_get result ''passability'' = Some (JStr ''unknown'')"
    by (simp add: failure_record_get)
  from analyze_image_try_cases [OF assms]
  have "(\<exists>msg. read_bytes w p = Inl msg \<and> e = EncodeFailed msg \<and> tr = [])
      \<or> (\<exists>msg. fewshot_error w p = Some msg \<and> e = PrepareFailed msg \<and> tr = [])
      \<or> (\<exists>bytes. read_bytes w p = Inr bytes \<and> e = AllFailed)"
    by auto
  with shape show ?thesis by blast
qed

text \<open>C10, at a run whose image cannot be read.\<close>

theorem failure_record_shape_witness:
  "analyze_image_try unreadable_world ''imgs/1.jpg'' 3 = (Inl (EncodeFailed ''No such file''), [])
   \<and> (\<exists>result. analyze_image unreadable_world ''imgs/1.jpg'' 3 = (result, [])
         \<and> dict_get result ''model_used'' = Some (JStr ''none'')
         \<and> dict_get result ''error'' = Some (JStr (ENCODE_FAILED_PREFIX @ ''No such file''))
         \<and> dict_get result ''justification''
             = Some (JStr (ANALYSIS_FAILED_PREFIX @ ENCODE_FAILED_PREFIX @ ''No such file'')))"
proof -
  have run: "analyze_image_try unreadable_world ''imgs/1.jpg'' 3
      = (Inl (EncodeFailed ''No such file''), [])"
    by code_simp
  from failure_record_shape [OF run] obtain result where
    r: "analyze_image unreadable_world ''imgs/1.jpg'' 3 = (result, [])"
    "dict_get result ''model_used'' = Some (JStr ''none'')"
    "dict_get result ''error'' = Some (JStr (str_error (EncodeFailed ''No such file'')))"
    by blast
  have "dict_get (fst (analyze_image unreadable_world ''imgs/1.jpg'' 3)) ''justification''
      = Some (JStr (ANALYSIS_FAILED_PREFIX @ ENCODE_FAILED_PREFIX @ ''No such file''))"
    by code_simp
  with r run show ?thesis by simp
qed

lemma analysis_success_present:
  "\<exists>v. dict_get (fst (analyze_image w p R)) ''analysis_success'' = Some v"
proof -
  from analyze_image_outcome [of w p R] consider
    (ok) r tr where "analyze_image_try w p R = (Inr r, tr)" "analyze_image w p R = (r, tr)"
    | (failed) e tr where "analyze_image w p R = (failure_record w p e, tr)"
    by blast
  then show ?thesis
  proof cases
    case ok
    from analyze_image_success [OF ok(1)] obtain a m d where
      d: "decoded_reply w p a m = Some (JObj d)" and r: "r = success_record w p m d"
      by blast
    have dist: "distinct (map fst d)"
      using d by (rule decoded_reply_distinct)
    have "\<exists>v. dict_get (success_record w p m d) ''analysis_success'' = Some v"
      unfolding success_record_get [OF dist] by (simp add: dict_get_def split: option.splits)
    with ok(2) r show ?thesis by simp
  next
    case failed
    then show ?thesis by (simp add: failure_record_get)
  qed
qed

subsection \<open>The batch\<close>

text \<open>
  C3, as amended. For an input directory that exists and has no qualifying image file,
  \<^verbatim>\<open>analyze_batch\<close> returns the report with an empty sequence of results and the summary
  \<^verbatim>\<open>total_images: 0\<close>, \<^verbatim>\<open>successful_analyses: 0\<close>, \<^verbatim>\<open>failed_analyses: 0\<close>,
  \<^verbatim>\<open>success_rate: "0.0%"\<close> (and the time stamp), and it does nothing else: no request, no
  pause, and no report file is written.
\<close>

theorem empty_batch_report:
  assumes "path_exists w d" and "get_image_files w d = Inr []"
  shows "analyze_batch w d out
     = (Inr (JObj [(''results'', JArr []),
                   (''summary'',
                    JObj [(''total_images'', JInt 0), (''successful_analyses'', JInt 0),
                          (''failed_analyses'', JInt 0), (''success_rate'', JStr ''0.0%''),
                          (''analysis_timestamp'', JStr (summary_now w))])]),
        [])"
  using assms by (simp add: analyze_batch_def empty_summary_def)

text \<open>C3, as amended, at an empty directory.\<close>

theorem empty_batch_report_witness:
  "path_exists quiet_world ''imgs'' \<and> get_image_files quiet_world ''imgs'' = Inr []
   \<and> analyze_batch quiet_world ''imgs'' ''out.json''
     = (Inr (JObj [(''results'', JArr []),
                   (''summary'',
                    JObj [(''total_images'', JInt 0), (''successful_analyses'', JInt 0),
                          (''failed_analyses'', JInt 0), (''success_rate'', JStr ''0.0%''),
                          (''analysis_timestamp'', JStr ''2025-01-01T00:05:00'')])]),
        [])"
proof -
  have 1: "path_exists quiet_world ''imgs''"
    by (simp add: quiet_world_def)
  have 2: "get_image_files quiet_world ''imgs'' = Inr []"
    by (simp add: get_image_files_def quiet_world_def)
  have 3: "summary_now quiet_world = ''2025-01-01T00:05:00''"
    by (simp add: quiet_world_def)
  from empty_batch_report [OF 1 2, of "''out.json''"] 1 2 3 show ?thesis
    by simp
qed

text \<open>
  C3 as stated fails. The directory exists and is empty and the report file could be
  written, yet the trace of the run is empty: the report is returned and never written.
\<close>

theorem empty_batch_written_counterexample:
  "path_exists quiet_world ''imgs'' \<and> get_image_files quiet_world ''imgs'' = Inr []
   \<and> open_write quiet_world ''out.json'' = None
   \<and> snd (analyze_batch quiet_world ''imgs'' ''out.json'') = []"
  by code_simp




end
